theory Spec2Isabelle
  imports Complex_Main "HOL-Library.Sublist"
begin

section \<open>Conventions\<close>

text \<open>
  The theory embeds the prediction pipeline of the phishing detection service: the
  email preprocessing, the URL feature extraction, the classifiers and the prediction
  service, the input validation and the batch endpoint. A Python function becomes a
  function of the same name. An exception is a value: a function that can raise returns
  a sum of an exception and a value, and a \<^verbatim>\<open>try\<close> becomes a case distinction on that result. A method that
  changes its object takes the state and returns the new one. Logging has no effect on
  any result and is left out. The trained models are opaque functions held in the state.
\<close>

section \<open>Text as Python sees it\<close>

text \<open>
  Python text is modelled as \<^typ>\<open>string\<close>: a character stands for the code point
  of the same number, so the model covers the code points below 256. The character
  classes are those of CPython for these code points: \<^verbatim>\<open>str.isspace\<close>, the regular
  expression classes \<^verbatim>\<open>\s\<close>, \<^verbatim>\<open>\d\<close>, \<^verbatim>\<open>\w\<close> of a \<^verbatim>\<open>str\<close> pattern,
  \<^verbatim>\<open>string.punctuation\<close> and \<^verbatim>\<open>str.lower\<close>.
\<close>

definition code :: "char \<Rightarrow> nat" where
  "code c = of_char c"

definition is_space :: "char \<Rightarrow> bool" where
  \<comment> \<open>\<^verbatim>\<open>\s\<close>, \<^verbatim>\<open>str.isspace\<close>: TAB..CR, FS..US, space, NEL, NBSP\<close>
  "is_space c = ((9 \<le> code c \<and> code c \<le> 13) \<or> (28 \<le> code c \<and> code c \<le> 32)
                 \<or> code c = 133 \<or> code c = 160)"

definition is_digit :: "char \<Rightarrow> bool" where
  \<comment> \<open>\<^verbatim>\<open>[0-9]\<close>; below 256 also all of \<^verbatim>\<open>\d\<close>\<close>
  "is_digit c = (48 \<le> code c \<and> code c \<le> 57)"

definition is_ascii_alpha :: "char \<Rightarrow> bool" where
  "is_ascii_alpha c = ((65 \<le> code c \<and> code c \<le> 90) \<or> (97 \<le> code c \<and> code c \<le> 122))"

definition is_word :: "char \<Rightarrow> bool" where
  \<comment> \<open>\<^verbatim>\<open>\w\<close>: alphanumeric code points and the underscore\<close>
  "is_word c = (is_digit c \<or> is_ascii_alpha c \<or> code c = 95
                \<or> code c = 170 \<or> code c = 178 \<or> code c = 179 \<or> code c = 181
                \<or> code c = 185 \<or> code c = 186 \<or> (188 \<le> code c \<and> code c \<le> 190)
                \<or> (192 \<le> code c \<and> code c \<le> 214) \<or> (216 \<le> code c \<and> code c \<le> 246)
                \<or> 248 \<le> code c)"

definition is_punct :: "char \<Rightarrow> bool" where
  \<comment> \<open>membership in \<^verbatim>\<open>string.punctuation\<close>\<close>
  "is_punct c = ((33 \<le> code c \<and> code c \<le> 47) \<or> (58 \<le> code c \<and> code c \<le> 64)
                 \<or> (91 \<le> code c \<and> code c \<le> 96) \<or> (123 \<le> code c \<and> code c \<le> 126))"

definition is_upper :: "char \<Rightarrow> bool" where
  \<comment> \<open>the code points that \<^verbatim>\<open>str.lower\<close> changes: A..Z and the Latin-1 capitals\<close>
  "is_upper c = ((65 \<le> code c \<and> code c \<le> 90)
                 \<or> (192 \<le> code c \<and> code c \<le> 222 \<and> code c \<noteq> 215))"

definition lower_char :: "char \<Rightarrow> char" where
  "lower_char c = (if is_upper c then char_of (code c + 32) else c)"

definition lower :: "string \<Rightarrow> string" where
  \<comment> \<open>\<^verbatim>\<open>str.lower()\<close>\<close>
  "lower s = map lower_char s"

fun contains :: "string \<Rightarrow> string \<Rightarrow> bool" where
  \<comment> \<open>\<^verbatim>\<open>sub in s\<close>\<close>
  "contains sub [] = (sub = [])"
| "contains sub (c # cs) = (prefix sub (c # cs) \<or> contains sub cs)"

fun str_count2 :: "char \<Rightarrow> char \<Rightarrow> string \<Rightarrow> nat" where
  \<comment> \<open>\<^verbatim>\<open>s.count(ab)\<close> for a needle of two characters: occurrences that do not overlap,
      scanned from the left\<close>
  "str_count2 a b (x # y # s) =
     (if x = a \<and> y = b then Suc (str_count2 a b s) else str_count2 a b (y # s))"
| "str_count2 a b s = 0"

definition strip :: "string \<Rightarrow> string" where
  \<comment> \<open>\<^verbatim>\<open>str.strip()\<close>\<close>
  "strip s = rev (dropWhile is_space (rev (dropWhile is_space s)))"

section \<open>Regular-expression substitution\<close>

text \<open>
  \<^verbatim>\<open>re.sub(pattern, repl, text)\<close> for a pattern without empty matches. A pattern is
  given by its matcher: for the character before a position (none at the start of the
  text) and the text from that position on, the length of the match that begins there,
  if there is one. The scan is the one of \<^verbatim>\<open>re.sub\<close>: from the left, the match at the
  first position that has one is replaced, and the scan goes on behind it.
\<close>

type_synonym matcher = "char option \<Rightarrow> string \<Rightarrow> nat option"

function re_sub :: "matcher \<Rightarrow> string \<Rightarrow> char option \<Rightarrow> string \<Rightarrow> string" where
  "re_sub m repl prev [] = []"
| "re_sub m repl prev (c # cs) =
     (case m prev (c # cs) of
        None \<Rightarrow> c # re_sub m repl (Some c) cs
      | Some n \<Rightarrow>
          if n = 0 then c # re_sub m repl (Some c) cs
          else repl @ re_sub m repl (Some ((c # cs) ! (n - 1))) (drop n (c # cs)))"
  by pat_completeness auto
termination
  by (relation "measure (\<lambda>(m, repl, prev, s). length s)") auto

section \<open>Email text preprocessing (utils/text\_preprocessor.py)\<close>

definition non_space :: "char \<Rightarrow> bool" where
  \<comment> \<open>\<^verbatim>\<open>\S\<close>\<close>
  "non_space c = (\<not> is_space c)"

definition link_at :: "nat \<Rightarrow> string \<Rightarrow> nat option" where
  \<comment> \<open>a word of \<open>k\<close> characters already read, then \<^verbatim>\<open>\S+\<close>\<close>
  "link_at k s =
     (let run = takeWhile non_space (drop k s) in
      if run = [] then None else Some (k + length run))"

definition link_len :: matcher where
  \<comment> \<open>\<^verbatim>\<open>http\S+|www\S+|https\S+\<close>: the first alternative that matches\<close>
  "link_len prev s =
     (if prefix ''http'' s \<and> link_at 4 s \<noteq> None then link_at 4 s
      else if prefix ''www'' s \<and> link_at 3 s \<noteq> None then link_at 3 s
      else if prefix ''https'' s \<and> link_at 5 s \<noteq> None then link_at 5 s
      else None)"

definition email_len :: matcher where
  \<comment> \<open>\<^verbatim>\<open>\S+@\S+\<close>: the run of non-space characters from here on, when an \<^verbatim>\<open>@\<close> stands
      in it behind its first and before its last character\<close>
  "email_len prev s =
     (let run = takeWhile non_space s in
      if CHR ''@'' \<in> set (butlast (tl run)) then Some (length run) else None)"

definition digits_then :: "nat \<Rightarrow> string \<Rightarrow> string option" where
  \<comment> \<open>\<^verbatim>\<open>\d{k}\<close>: what follows \<open>k\<close> digits\<close>
  "digits_then k s =
     (if k \<le> length s \<and> list_all is_digit (take k s) then Some (drop k s) else None)"

definition opt_sep :: "string \<Rightarrow> string" where
  \<comment> \<open>\<^verbatim>\<open>[-.]?\<close>: a separator is taken when it is there\<close>
  "opt_sep s =
     (case s of [] \<Rightarrow> [] | c # cs \<Rightarrow> if c = CHR ''-'' \<or> c = CHR ''.'' then cs else c # cs)"

definition phone_len :: matcher where
  \<comment> \<open>\<^verbatim>\<open>\b\d{3}[-.]?\d{3}[-.]?\d{4}\b\<close>\<close>
  "phone_len prev s =
     (if (case prev of None \<Rightarrow> True | Some p \<Rightarrow> \<not> is_word p) then
        (case digits_then 3 s of None \<Rightarrow> None
         | Some r1 \<Rightarrow> (case digits_then 3 (opt_sep r1) of None \<Rightarrow> None
         | Some r2 \<Rightarrow> (case digits_then 4 (opt_sep r2) of None \<Rightarrow> None
         | Some r3 \<Rightarrow> if r3 = [] \<or> \<not> is_word (hd r3)
                       then Some (length s - length r3) else None)))
      else None)"

definition tag_len :: matcher where
  \<comment> \<open>\<^verbatim>\<open><[^>]+>\<close>\<close>
  "tag_len prev s =
     (case s of [] \<Rightarrow> None
      | c # r \<Rightarrow>
          (let body = takeWhile (\<lambda>x. x \<noteq> CHR ''>'') r in
           if c = CHR ''<'' \<and> body \<noteq> [] \<and> length body < length r
           then Some (length body + 2) else None))"

definition run_len :: "(char \<Rightarrow> bool) \<Rightarrow> matcher" where
  \<comment> \<open>\<^verbatim>\<open>\s+\<close> and \<^verbatim>\<open>\d+\<close>: the longest run of the class\<close>
  "run_len P prev s =
     (let run = takeWhile P s in if run = [] then None else Some (length run))"

definition remove_punctuation :: "string \<Rightarrow> string" where
  \<comment> \<open>\<^verbatim>\<open>text.translate(str.maketrans('', '', string.punctuation))\<close>\<close>
  "remove_punctuation s = filter (\<lambda>c. \<not> is_punct c) s"

definition preprocess_email :: "string \<Rightarrow> string" where
  "preprocess_email text0 =
     (if text0 = [] then []
      else
        (let text = re_sub link_len [] None text0;
             text = re_sub email_len [] None text;
             text = re_sub phone_len [] None text;
             text = re_sub tag_len [] None text;
             text = re_sub (run_len is_space) '' '' None text;
             text = lower text;
             text = remove_punctuation text;
             text = re_sub (run_len is_digit) [] None text;
             text = strip text
         in text))"

fun has_link :: "string \<Rightarrow> bool" where
  \<comment> \<open>the hyperlink pattern matches somewhere in the text\<close>
  "has_link [] = False"
| "has_link (c # cs) = (link_len None (c # cs) \<noteq> None \<or> has_link cs)"

definition plain :: "char \<Rightarrow> bool" where
  \<comment> \<open>a character that the last five steps of the preprocessing leave alone\<close>
  "plain c = (\<not> is_punct c \<and> \<not> is_digit c \<and> \<not> is_upper c \<and> (is_space c \<longrightarrow> c = CHR '' ''))"

text \<open>The preprocessing from the lowering on, and from the removal of email addresses on.\<close>

definition after_collapse :: "string \<Rightarrow> string" where
  "after_collapse u =
     strip (re_sub (run_len is_digit) [] None (remove_punctuation (lower u)))"

definition after_links :: "string \<Rightarrow> string" where
  "after_links t =
     after_collapse (re_sub (run_len is_space) '' '' None
       (re_sub tag_len [] None (re_sub phone_len [] None (re_sub email_len [] None t))))"

section \<open>Exceptions\<close>

datatype exn =
    RuntimeError string
  | ValueError string
  | AttributeError string
  | TypeError string
  | KeyError string
  | FileNotFoundError string
  | OtherError string

section \<open>The URL parser of the standard library\<close>

text \<open>
  \<^verbatim>\<open>urlparse(url).netloc\<close> as CPython 3.11 computes it in \<^verbatim>\<open>urlsplit\<close>. The validation
  of a bracketed host (\<^verbatim>\<open>_check_bracketed_host\<close>, which calls the \<^verbatim>\<open>ipaddress\<close>
  module) is the parameter \<open>chk\<close>. \<^verbatim>\<open>_checknetloc\<close> raises for no text of code points
  below 256 and is left out.
\<close>

definition lstrip_c0 :: "string \<Rightarrow> string" where
  \<comment> \<open>\<^verbatim>\<open>url.lstrip(_WHATWG_C0_CONTROL_OR_SPACE)\<close>\<close>
  "lstrip_c0 url = dropWhile (\<lambda>c. code c \<le> 32) url"

definition remove_unsafe :: "string \<Rightarrow> string" where
  \<comment> \<open>TAB, CR and LF are deleted everywhere\<close>
  "remove_unsafe url = filter (\<lambda>c. code c \<noteq> 9 \<and> code c \<noteq> 13 \<and> code c \<noteq> 10) url"

definition is_scheme_char :: "char \<Rightarrow> bool" where
  "is_scheme_char c = (is_ascii_alpha c \<or> is_digit c \<or> c = CHR ''+'' \<or> c = CHR ''-'' \<or> c = CHR ''.'')"

definition after_scheme :: "string \<Rightarrow> string" where
  \<comment> \<open>the text left once a leading \<^verbatim>\<open>scheme:\<close> is split off\<close>
  "after_scheme url =
     (let pre = takeWhile (\<lambda>c. c \<noteq> CHR '':'') url in
      if pre \<noteq> url \<and> pre \<noteq> [] \<and> is_ascii_alpha (hd url) \<and> list_all is_scheme_char pre
      then drop (Suc (length pre)) url else url)"

definition is_delim :: "char \<Rightarrow> bool" where
  "is_delim c = (c = CHR ''/'' \<or> c = CHR ''?'' \<or> c = CHR ''#'')"

definition urlsplit_netloc :: "(string \<Rightarrow> bool) \<Rightarrow> string \<Rightarrow> exn + string" where
  "urlsplit_netloc chk url0 =
     (let url = after_scheme (remove_unsafe (lstrip_c0 url0)) in
      if take 2 url = ''//'' then
        (let netloc = takeWhile (\<lambda>c. \<not> is_delim c) (drop 2 url);
             lb = CHR ''['' \<in> set netloc; rb = CHR '']'' \<in> set netloc in
         if (lb \<and> \<not> rb) \<or> (rb \<and> \<not> lb) then Inl (ValueError ''Invalid IPv6 URL'')
         else if lb \<and> rb \<and>
                 \<not> chk (takeWhile (\<lambda>c. c \<noteq> CHR '']'')
                          (drop 1 (dropWhile (\<lambda>c. c \<noteq> CHR ''['') netloc)))
              then Inl (ValueError ''invalid bracketed host'')
         else Inr netloc)
      else Inr [])"

section \<open>URL feature extraction (models/url\_classifier.py)\<close>

definition octet_dot :: "string \<Rightarrow> string option" where
  \<comment> \<open>\<^verbatim>\<open>[0-9]{1,3}\.\<close> at the head of the text: what follows the dot\<close>
  "octet_dot s =
     (let d = takeWhile is_digit s; r = dropWhile is_digit s in
      if 1 \<le> length d \<and> length d \<le> 3 \<and> r \<noteq> [] \<and> hd r = CHR ''.'' then Some (tl r) else None)"

definition last_octet :: "string \<Rightarrow> bool" where
  \<comment> \<open>\<^verbatim>\<open>[0-9]{1,3}\b\<close> at the head of the text\<close>
  "last_octet s =
     (let d = takeWhile is_digit s; r = dropWhile is_digit s in
      1 \<le> length d \<and> length d \<le> 3 \<and> (r = [] \<or> \<not> is_word (hd r)))"

definition ip_match_at :: "char option \<Rightarrow> string \<Rightarrow> bool" where
  \<comment> \<open>\<^verbatim>\<open>\b(?:[0-9]{1,3}\.){3}[0-9]{1,3}\b\<close> matched at this position; \<open>prev\<close> is the
      character before it\<close>
  "ip_match_at prev s =
     ((case prev of None \<Rightarrow> True | Some p \<Rightarrow> \<not> is_word p) \<and>
      (case octet_dot s of None \<Rightarrow> False
       | Some r1 \<Rightarrow> (case octet_dot r1 of None \<Rightarrow> False
       | Some r2 \<Rightarrow> (case octet_dot r2 of None \<Rightarrow> False
       | Some r3 \<Rightarrow> last_octet r3))))"

fun ip_search :: "char option \<Rightarrow> string \<Rightarrow> bool" where
  \<comment> \<open>\<^verbatim>\<open>re.search\<close> of the pattern: some position matches\<close>
  "ip_search prev [] = ip_match_at prev []"
| "ip_search prev (c # cs) = (ip_match_at prev (c # cs) \<or> ip_search (Some c) cs)"

definition has_ip_address :: "string \<Rightarrow> int" where
  "has_ip_address url = (if ip_search None url then 1 else -1)"

text \<open>
  What the pattern means, read off the regular expression: somewhere in the text stand
  four groups of one to three digits with dots between them, with a word boundary
  before the first and behind the last group.
\<close>

definition digits13 :: "string \<Rightarrow> bool" where
  "digits13 d = (1 \<le> length d \<and> length d \<le> 3 \<and> list_all is_digit d)"

definition dotted_quad_in :: "string \<Rightarrow> bool" where
  "dotted_quad_in url =
     (\<exists>pre a b c d post.
        url = pre @ a @ ''.'' @ b @ ''.'' @ c @ ''.'' @ d @ post
        \<and> digits13 a \<and> digits13 b \<and> digits13 c \<and> digits13 d
        \<and> (pre = [] \<or> \<not> is_word (last pre))
        \<and> (post = [] \<or> \<not> is_word (hd post)))"

definition boundary_before :: "char option \<Rightarrow> string \<Rightarrow> bool" where
  "boundary_before prev pre =
     (if pre = [] then (case prev of None \<Rightarrow> True | Some p \<Rightarrow> \<not> is_word p)
      else \<not> is_word (last pre))"

definition get_url_length_category :: "nat \<Rightarrow> int" where
  "get_url_length_category len = (if len < 54 then -1 else if len \<le> 75 then 0 else 1)"

definition shortening_services :: "string list" where
  "shortening_services =
     [''bit.ly'', ''tinyurl.com'', ''goo.gl'', ''t.co'', ''short.link'', ''ow.ly'', ''is.gd'']"

definition has_shortening_service :: "string \<Rightarrow> int" where
  "has_shortening_service url =
     (if list_ex (\<lambda>service. contains service (lower url)) shortening_services then 1 else -1)"

definition has_at_symbol :: "string \<Rightarrow> int" where
  "has_at_symbol url = (if CHR ''@'' \<in> set url then 1 else -1)"

definition has_double_slash_redirect :: "string \<Rightarrow> int" where
  "has_double_slash_redirect url = (if str_count2 (CHR ''/'') (CHR ''/'') url > 1 then 1 else -1)"

definition has_prefix_suffix :: "string \<Rightarrow> int" where
  "has_prefix_suffix domain = (if CHR ''-'' \<in> set domain then 1 else -1)"

definition count_subdomains :: "string \<Rightarrow> int" where
  "count_subdomains domain =
     (if domain = [] then -1
      else (let subdomain_count = length (filter (\<lambda>c. c = CHR ''.'') domain) in
            if subdomain_count \<le> 1 then -1 else if subdomain_count = 2 then 0 else 1))"

definition heuristics :: "string \<Rightarrow> string \<Rightarrow> int list" where
  \<comment> \<open>features 1 to 7, in the order they are appended; \<open>netloc\<close> is the parsed host part\<close>
  "heuristics url netloc =
     [has_ip_address url,
      get_url_length_category (length url),
      has_shortening_service url,
      has_at_symbol url,
      has_double_slash_redirect url,
      has_prefix_suffix netloc,
      count_subdomains netloc]"

definition extract_features :: "(string \<Rightarrow> bool) \<Rightarrow> int \<Rightarrow> string \<Rightarrow> exn + int list" where
  \<comment> \<open>\<open>expected_features\<close> is the classifier's field of that name; an exception of the
      parser is logged and raised again\<close>
  "extract_features chk expected_features url =
     (case urlsplit_netloc chk url of
        Inl e \<Rightarrow> Inl e
      | Inr netloc \<Rightarrow>
          (let features = heuristics url netloc;
               remaining_features = expected_features - int (length features)
           in Inr (features @ replicate (nat remaining_features) 0)))"

section \<open>The classifiers (models/email\_classifier.py, models/url\_classifier.py)\<close>

text \<open>
  A trained scikit-learn model is opaque: what \<^verbatim>\<open>predict\<close> and \<^verbatim>\<open>predict_proba\<close>
  return for one row of features (or raise), and the attribute \<^verbatim>\<open>n_features_in_\<close>.
  Confidences are real numbers.
\<close>

record 'x sk_model =
  sk_predict :: "'x \<Rightarrow> exn + int"
  sk_predict_proba :: "'x \<Rightarrow> exn + real list"
  n_features_in :: int

type_synonym vectorizer = "string \<Rightarrow> exn + real list"

record email_classifier =
  em_model :: "real list sk_model option"
  em_vectorizer :: "vectorizer option"
  em_is_loaded :: bool

record url_classifier =
  url_model :: "int list sk_model option"
  url_is_loaded :: bool
  expected_features :: int

definition new_email_classifier :: email_classifier where
  "new_email_classifier = \<lparr>em_model = None, em_vectorizer = None, em_is_loaded = False\<rparr>"

definition new_url_classifier :: url_classifier where
  "new_url_classifier = \<lparr>url_model = None, url_is_loaded = False, expected_features = 30\<rparr>"

text \<open>What \<^verbatim>\<open>joblib.load\<close> gives for the three model files, and whether the directory exists.\<close>

record model_store =
  dir_exists :: bool
  email_classifier_pkl :: "exn + real list sk_model"
  email_vectorizer_pkl :: "exn + vectorizer"
  url_classifier_pkl :: "exn + int list sk_model"

definition email_load_model :: "model_store \<Rightarrow> email_classifier \<Rightarrow> (exn + unit) \<times> email_classifier" where
  "email_load_model store c =
     (case email_classifier_pkl store of
        Inl e \<Rightarrow> (Inl e, c)
      | Inr m \<Rightarrow>
          (case email_vectorizer_pkl store of
             Inl e \<Rightarrow> (Inl e, c\<lparr>em_model := Some m\<rparr>)
           | Inr v \<Rightarrow>
               (Inr (), c\<lparr>em_model := Some m, em_vectorizer := Some v, em_is_loaded := True\<rparr>)))"

definition url_load_model :: "model_store \<Rightarrow> url_classifier \<Rightarrow> (exn + unit) \<times> url_classifier" where
  "url_load_model store c =
     (case url_classifier_pkl store of
        Inl e \<Rightarrow> (Inl e, c)
      | Inr m \<Rightarrow>
          (Inr (), c\<lparr>url_model := Some m, expected_features := n_features_in m,
                      url_is_loaded := True\<rparr>))"

definition np_max :: "real list \<Rightarrow> exn + real" where
  \<comment> \<open>\<^verbatim>\<open>np.max\<close> raises on an empty array\<close>
  "np_max ps =
     (case ps of [] \<Rightarrow> Inl (ValueError ''zero-size array to reduction operation maximum'')
      | p # qs \<Rightarrow> Inr (fold max qs p))"

definition sk_classify :: "'x sk_model \<Rightarrow> 'x \<Rightarrow> exn + int \<times> real" where
  \<comment> \<open>the prediction, then the probabilities, then their maximum\<close>
  "sk_classify m x =
     (case sk_predict m x of
        Inl e \<Rightarrow> Inl e
      | Inr prediction \<Rightarrow>
          (case sk_predict_proba m x of
             Inl e \<Rightarrow> Inl e
           | Inr probabilities \<Rightarrow>
               (case np_max probabilities of
                  Inl e \<Rightarrow> Inl e
                | Inr confidence \<Rightarrow> Inr (prediction, confidence))))"

definition none_type_error :: exn where
  "none_type_error = AttributeError ''NoneType object has no such attribute''"

definition email_predict :: "email_classifier \<Rightarrow> string \<Rightarrow> exn + int \<times> real" where
  "email_predict c text =
     (if \<not> em_is_loaded c then Inl (RuntimeError ''Model not loaded'')
      else
        (case em_vectorizer c of
           None \<Rightarrow> Inl none_type_error
         | Some v \<Rightarrow>
             (case v text of
                Inl e \<Rightarrow> Inl e
              | Inr text_features \<Rightarrow>
                  (case em_model c of
                     None \<Rightarrow> Inl none_type_error
                   | Some m \<Rightarrow> sk_classify m text_features))))"

definition url_predict :: "url_classifier \<Rightarrow> int list \<Rightarrow> exn + int \<times> real" where
  "url_predict c features =
     (if \<not> url_is_loaded c then Inl (RuntimeError ''Model not loaded'')
      else
        (case url_model c of
           None \<Rightarrow> Inl none_type_error
         | Some m \<Rightarrow> sk_classify m features))"

section \<open>The prediction service (services/prediction\_service.py)\<close>

record prediction_service =
  email_clf :: email_classifier
  url_clf :: url_classifier
  models_loaded :: bool

definition new_prediction_service :: prediction_service where
  "new_prediction_service =
     \<lparr>email_clf = new_email_classifier, url_clf = new_url_classifier, models_loaded = False\<rparr>"

definition load_models :: "model_store \<Rightarrow> prediction_service \<Rightarrow> (exn + unit) \<times> prediction_service" where
  "load_models store s =
     (if \<not> dir_exists store
      then (Inl (FileNotFoundError ''Models directory not found: models/saved_models''), s)
      else
        (case email_load_model store (email_clf s) of
           (Inl e, ec) \<Rightarrow> (Inl e, s\<lparr>email_clf := ec\<rparr>)
         | (Inr u, ec) \<Rightarrow>
             (case url_load_model store (url_clf s) of
                (Inl e, uc) \<Rightarrow> (Inl e, s\<lparr>email_clf := ec, url_clf := uc\<rparr>)
              | (Inr u', uc) \<Rightarrow>
                  (Inr (), s\<lparr>email_clf := ec, url_clf := uc, models_loaded := True\<rparr>))))"

record prediction_result =
  prediction :: string
  confidence :: real
  risk_level :: string
  content_type :: string
  raw_prediction :: int
  processed_text :: "string option"

definition calculate_risk_level :: "real \<Rightarrow> bool \<Rightarrow> string" where
  "calculate_risk_level conf is_phishing =
     (if \<not> is_phishing then ''Low''
      else if conf \<ge> 0.8 then ''High''
      else if conf \<ge> 0.6 then ''Medium''
      else ''Low'')"

definition predict_email :: "prediction_service \<Rightarrow> string \<Rightarrow> exn + prediction_result" where
  "predict_email s text =
     (let processed = preprocess_email text in
      case email_predict (email_clf s) processed of
        Inl e \<Rightarrow> Inl e
      | Inr (prediction_num, conf) \<Rightarrow>
          (let pred = (if prediction_num = 1 then ''Phishing'' else ''Safe'');
               risk = calculate_risk_level conf (pred = ''Phishing'')
           in Inr \<lparr>prediction = pred, confidence = conf, risk_level = risk,
                    content_type = ''email'', raw_prediction = prediction_num,
                    processed_text = Some (take 100 processed)\<rparr>))"

definition predict_from_features :: "prediction_service \<Rightarrow> int list \<Rightarrow> exn + prediction_result" where
  \<comment> \<open>\<^verbatim>\<open>_predict_url\<close> from the call of the classifier on\<close>
  "predict_from_features s features =
     (case url_predict (url_clf s) features of
        Inl e \<Rightarrow> Inl e
      | Inr (prediction_num, conf) \<Rightarrow>
          (let pred = (if prediction_num = 1 then ''Phishing'' else ''Safe'');
               risk = calculate_risk_level conf (pred = ''Phishing'')
           in Inr \<lparr>prediction = pred, confidence = conf, risk_level = risk,
                    content_type = ''url'', raw_prediction = prediction_num,
                    processed_text = None\<rparr>))"

definition predict_url :: "(string \<Rightarrow> bool) \<Rightarrow> prediction_service \<Rightarrow> string \<Rightarrow> exn + prediction_result" where
  \<comment> \<open>the features are extracted from the text as it was passed in\<close>
  "predict_url chk s url =
     (case extract_features chk (expected_features (url_clf s)) url of
        Inl e \<Rightarrow> Inl e
      | Inr features \<Rightarrow> predict_from_features s features)"

definition predict_text :: "(string \<Rightarrow> bool) \<Rightarrow> prediction_service \<Rightarrow> string \<Rightarrow> string \<Rightarrow> exn + prediction_result" where
  "predict_text chk s text ctype =
     (if \<not> models_loaded s then Inl (RuntimeError ''Models not loaded'')
      else if lower ctype = ''email'' then predict_email s text
      else if lower ctype = ''url'' then predict_url chk s text
      else Inl (ValueError (''Invalid content type: '' @ ctype)))"

definition predict :: "(string \<Rightarrow> bool) \<Rightarrow> prediction_service \<Rightarrow> string \<Rightarrow> string \<Rightarrow> exn + prediction_result" where
  "predict chk s text detection_type = predict_text chk s text detection_type"

section \<open>Concrete models and stores for evaluation\<close>

definition const_model :: "int \<Rightarrow> real list \<Rightarrow> int \<Rightarrow> 'x sk_model" where
  \<comment> \<open>a model that answers every row with the same label and probabilities\<close>
  "const_model raw probs n =
     \<lparr>sk_predict = (\<lambda>x. Inr raw), sk_predict_proba = (\<lambda>x. Inr probs), n_features_in = n\<rparr>"

definition length_vectorizer :: vectorizer where
  "length_vectorizer text = Inr [real (length text)]"

definition good_store :: "int \<Rightarrow> real list \<Rightarrow> model_store" where
  \<comment> \<open>all three files load\<close>
  "good_store raw probs =
     \<lparr>dir_exists = True,
      email_classifier_pkl = Inr (const_model raw probs 1),
      email_vectorizer_pkl = Inr length_vectorizer,
      url_classifier_pkl = Inr (const_model raw probs 30)\<rparr>"

definition url_missing_store :: model_store where
  \<comment> \<open>the email files load, the URL model file is missing\<close>
  "url_missing_store =
     \<lparr>dir_exists = True,
      email_classifier_pkl = Inr (const_model 1 [0.1, 0.9] 1),
      email_vectorizer_pkl = Inr length_vectorizer,
      url_classifier_pkl = Inl (FileNotFoundError ''models/saved_models/url_classifier.pkl'')\<rparr>"

definition ready_service :: "int \<Rightarrow> real list \<Rightarrow> prediction_service" where
  \<comment> \<open>a new service after a load that succeeded\<close>
  "ready_service raw probs = snd (load_models (good_store raw probs) new_prediction_service)"

section \<open>The label mapping the specification asks for\<close>

text \<open>
  In the words of the specification, for comparison with the code: the semantic label is
  read from a mapping table supplied with the model, and a mapping that is not verified
  is rejected (no label).
\<close>

definition label_by_table :: "(int \<rightharpoonup> string) \<Rightarrow> bool \<Rightarrow> int \<Rightarrow> string option" where
  "label_by_table table verified raw = (if verified then table raw else None)"

section \<open>Request data\<close>

text \<open>A decoded JSON value; an object is the list of its members, looked up by key.\<close>

datatype json =
    JNull
  | JBool bool
  | JNum real
  | JStr string
  | JArr "json list"
  | JObj "(string \<times> json) list"

definition truthy :: "json \<Rightarrow> bool" where
  \<comment> \<open>Python's truth value of the decoded value\<close>
  "truthy v =
     (case v of JNull \<Rightarrow> False | JBool b \<Rightarrow> b | JNum x \<Rightarrow> x \<noteq> 0 | JStr s \<Rightarrow> s \<noteq> []
      | JArr xs \<Rightarrow> xs \<noteq> [] | JObj kvs \<Rightarrow> kvs \<noteq> [])"

definition py_in :: "string \<Rightarrow> json \<Rightarrow> exn + bool" where
  \<comment> \<open>\<^verbatim>\<open>key in v\<close>: a key of an object, a substring of a string, an element of an array\<close>
  "py_in key v =
     (case v of
        JObj kvs \<Rightarrow> Inr (map_of kvs key \<noteq> None)
      | JStr s \<Rightarrow> Inr (contains key s)
      | JArr xs \<Rightarrow> Inr (JStr key \<in> set xs)
      | _ \<Rightarrow> Inl (TypeError ''argument is not iterable''))"

definition py_getitem :: "json \<Rightarrow> string \<Rightarrow> exn + json" where
  \<comment> \<open>\<^verbatim>\<open>v[key]\<close> for a string key\<close>
  "py_getitem v key =
     (case v of
        JObj kvs \<Rightarrow> (case map_of kvs key of None \<Rightarrow> Inl (KeyError key) | Some x \<Rightarrow> Inr x)
      | _ \<Rightarrow> Inl (TypeError ''indices must be integers''))"

section \<open>Input validation (utils/validators.py)\<close>

record validation =
  is_valid :: bool
  error :: "string option"

definition invalid :: "string \<Rightarrow> validation" where
  "invalid msg = \<lparr>is_valid = False, error = Some msg\<rparr>"

definition valid :: validation where
  "valid = \<lparr>is_valid = True, error = None\<rparr>"

function split_ws :: "string \<Rightarrow> string list" where
  \<comment> \<open>\<^verbatim>\<open>str.split()\<close>: the runs of characters that are not white space\<close>
  "split_ws s =
     (let t = dropWhile is_space s in
      if t = [] then [] else takeWhile non_space t # split_ws (dropWhile non_space t))"
  by pat_completeness auto
termination
proof (relation "measure length")
  fix s t :: string
  assume t: "t = dropWhile is_space s" and ne: "t \<noteq> []"
  from ne obtain c cs where c: "t = c # cs" by (cases t) auto
  from t ne have "\<not> is_space (hd t)" by (simp add: hd_dropWhile)
  with c have "length (dropWhile non_space t) \<le> length cs"
    by (simp add: non_space_def length_dropWhile_le)
  moreover have "length t \<le> length s" using t by (simp add: length_dropWhile_le)
  ultimately show "(dropWhile non_space t, s) \<in> measure length" using c by simp
qed simp

fun script_search :: "string \<Rightarrow> bool" where
  \<comment> \<open>\<^verbatim>\<open>re.search\<close> of \<^verbatim>\<open><script[^>]*>.*?</script>\<close> with \<^verbatim>\<open>DOTALL\<close>, on lowered text\<close>
  "script_search [] = False"
| "script_search (c # cs) =
     ((prefix ''<script'' (c # cs) \<and>
       (let r = dropWhile (\<lambda>x. x \<noteq> CHR ''>'') (drop 7 (c # cs)) in
        r \<noteq> [] \<and> contains ''</script>'' (tl r)))
      \<or> script_search cs)"

definition has_suspicious_pattern :: "string \<Rightarrow> bool" where
  \<comment> \<open>the three patterns are searched ignoring case; they hold no letter beyond a..z, so
      ignoring case is searching the lowered text\<close>
  "has_suspicious_pattern text =
     (script_search (lower text) \<or> contains ''javascript:'' (lower text)
      \<or> contains ''data:text/html'' (lower text))"

definition validate_email_content :: "string \<Rightarrow> validation" where
  "validate_email_content text =
     (if length (split_ws text) < 2 then invalid ''Email content must contain at least 2 words''
      else if has_suspicious_pattern text
      then invalid ''Email content contains potentially malicious patterns''
      else valid)"

text \<open>
  The URL pattern is matched with backtracking: a piece of the pattern maps a text to
  every text that can be left behind it.
\<close>

type_synonym rx = "string \<Rightarrow> string list"

definition rx_lit :: "string \<Rightarrow> rx" where
  \<comment> \<open>a literal of lower-case letters and signs, ignoring case\<close>
  "rx_lit pat s = (if prefix pat (lower (take (length pat) s)) then [drop (length pat) s] else [])"

definition rx_rep :: "(char \<Rightarrow> bool) \<Rightarrow> nat \<Rightarrow> nat \<Rightarrow> rx" where
  \<comment> \<open>\<^verbatim>\<open>[class]{lo,hi}\<close>\<close>
  "rx_rep P lo hi s =
     map (\<lambda>k. drop k s) (filter (\<lambda>k. k \<le> length (takeWhile P s)) [lo..<Suc hi])"

definition rx_seq :: "rx \<Rightarrow> rx \<Rightarrow> rx" where
  "rx_seq r1 r2 s = concat (map r2 (r1 s))"

definition rx_alt :: "rx \<Rightarrow> rx \<Rightarrow> rx" where
  "rx_alt r1 r2 s = r1 s @ r2 s"

definition rx_opt :: "rx \<Rightarrow> rx" where
  "rx_opt r s = r s @ [s]"

fun rx_plus :: "nat \<Rightarrow> rx \<Rightarrow> rx" where
  \<comment> \<open>\<^verbatim>\<open>(group)+\<close> for a group that reads at least one character; the first argument
      bounds the number of rounds and is the length of the text\<close>
  "rx_plus 0 r s = []"
| "rx_plus (Suc n) r s = (let once = r s in once @ concat (map (rx_plus n r) once))"

definition is_alnum_ascii :: "char \<Rightarrow> bool" where
  \<comment> \<open>\<^verbatim>\<open>[A-Z0-9]\<close> ignoring case\<close>
  "is_alnum_ascii c = (is_ascii_alpha c \<or> is_digit c)"

definition rx_label :: rx where
  \<comment> \<open>\<^verbatim>\<open>[A-Z0-9](?:[A-Z0-9-]{0,61}[A-Z0-9])?\.\<close>\<close>
  "rx_label =
     rx_seq (rx_rep is_alnum_ascii 1 1)
       (rx_seq (rx_opt (rx_seq (rx_rep (\<lambda>c. is_alnum_ascii c \<or> c = CHR ''-'') 0 61)
                               (rx_rep is_alnum_ascii 1 1)))
               (rx_lit ''.''))"

definition rx_host :: rx where
  "rx_host s =
     rx_alt (rx_seq (rx_plus (length s) rx_label)
                    (rx_seq (rx_rep is_ascii_alpha 2 6) (rx_opt (rx_lit ''.''))))
       (rx_alt (rx_lit ''localhost'')
          (rx_seq (rx_rep is_digit 1 3) (rx_seq (rx_lit ''.'')
          (rx_seq (rx_rep is_digit 1 3) (rx_seq (rx_lit ''.'')
          (rx_seq (rx_rep is_digit 1 3) (rx_seq (rx_lit ''.'') (rx_rep is_digit 1 3)))))))) s"

definition rx_url :: rx where
  \<comment> \<open>scheme, host, optional port, optional path\<close>
  "rx_url s =
     rx_seq (rx_alt (rx_lit ''http'') (rx_lit ''ftp''))
       (rx_seq (rx_opt (rx_lit ''s''))
       (rx_seq (rx_lit ''://'')
       (rx_seq rx_host
       (rx_seq (rx_opt (rx_seq (rx_lit '':'') (rx_rep is_digit 1 (length s))))
               (rx_alt (rx_opt (rx_lit ''/''))
                       (rx_seq (rx_rep (\<lambda>c. c = CHR ''/'' \<or> c = CHR ''?'') 1 1)
                               (rx_rep non_space 1 (length s)))))))) s"

definition url_pattern_match :: "string \<Rightarrow> bool" where
  \<comment> \<open>\<^verbatim>\<open>url_pattern.match\<close>: the pattern is anchored at both ends, and \<^verbatim>\<open>$\<close> also
      matches before a newline that ends the text\<close>
  "url_pattern_match s = list_ex (\<lambda>r. r = [] \<or> r = [CHR 0x0A]) (rx_url s)"

definition starts_with_http :: "string \<Rightarrow> bool" where
  "starts_with_http text = (prefix ''http://'' text \<or> prefix ''https://'' text)"

definition validate_url_content :: "(string \<Rightarrow> bool) \<Rightarrow> string \<Rightarrow> validation" where
  "validate_url_content chk text =
     (let test_url = (if \<not> starts_with_http text then ''http://'' @ text else text);
          lenient_ok =
            (url_pattern_match test_url \<or>
             (case urlsplit_netloc chk test_url of Inl e \<Rightarrow> False | Inr netloc \<Rightarrow> netloc \<noteq> []))
      in if \<not> lenient_ok then invalid ''Invalid URL format''
         else if length text > 2048 then invalid ''URL is too long (max 2048 characters)''
         else valid)"

definition validate_text_content :: "(string \<Rightarrow> bool) \<Rightarrow> json \<Rightarrow> string \<Rightarrow> validation" where
  "validate_text_content chk text0 ctype =
     (case text0 of
        JStr raw \<Rightarrow>
          (if raw = [] then invalid ''Text content must be a non-empty string''
           else
             (let text = strip raw in
              if text = [] then invalid ''Text content cannot be empty''
              else if length text > 10000
              then invalid ''Text content is too long (max 10,000 characters)''
              else if length text < 3
              then invalid ''Text content is too short (min 3 characters)''
              else if ctype = ''email'' then validate_email_content text
              else if ctype = ''url'' then validate_url_content chk text
              else valid))
      | _ \<Rightarrow> invalid ''Text content must be a non-empty string'')"

definition validate_checked :: "(string \<Rightarrow> bool) \<Rightarrow> json \<Rightarrow> exn + validation" where
  \<comment> \<open>the body of the \<^verbatim>\<open>try\<close> of \<^verbatim>\<open>validate_prediction_input\<close>\<close>
  "validate_checked chk data =
     (if \<not> truthy data then Inr (invalid ''Request data is required'')
      else
        (case py_in ''text'' data of
           Inl e \<Rightarrow> Inl e
         | Inr has_text \<Rightarrow>
             if \<not> has_text then Inr (invalid ''Text field is required'')
             else
               (case py_in ''type'' data of
                  Inl e \<Rightarrow> Inl e
                | Inr has_type \<Rightarrow>
                    if \<not> has_type then Inr (invalid ''Type field is required'')
                    else
                      (case py_getitem data ''type'' of
                         Inl e \<Rightarrow> Inl e
                       | Inr ty \<Rightarrow>
                           if ty \<noteq> JStr ''email'' \<and> ty \<noteq> JStr ''url''
                           then Inr (invalid ''Type must be one of: email, url'')
                           else
                             (case (py_getitem data ''text'', ty) of
                                (Inr text, JStr ctype) \<Rightarrow>
                                  (let text_validation = validate_text_content chk text ctype in
                                   if \<not> is_valid text_validation then Inr text_validation
                                   else Inr valid)
                              | (Inl e, _) \<Rightarrow> Inl e
                              | (_, _) \<Rightarrow> Inl (TypeError ''type is not a string''))))))"

definition validate_prediction_input :: "(string \<Rightarrow> bool) \<Rightarrow> json \<Rightarrow> validation" where
  \<comment> \<open>an exception in the body is logged and reported as a validation error\<close>
  "validate_prediction_input chk data =
     (case validate_checked chk data of
        Inl e \<Rightarrow> invalid ''Validation error occurred''
      | Inr v \<Rightarrow> v)"

section \<open>Batch prediction in the service (services/prediction\_service.py)\<close>

text \<open>
  \<^verbatim>\<open>predict_batch\<close> is called by main.py with the items of the request as they were
  decoded, without validation, so an item is any JSON value; the batch is the list of the
  items of a JSON array. Its entries carry no index. A failed entry holds the exception
  (the source stores \<^verbatim>\<open>str(e)\<close>, which the exception determines) and the first 50
  characters of the item's text followed by three dots. The handler that builds the
  failed entry can raise itself; that exception leaves \<^verbatim>\<open>predict_batch\<close> and no entry is
  returned for any item.
\<close>

definition predict_text_any :: "(string \<Rightarrow> bool) \<Rightarrow> prediction_service \<Rightarrow> json \<Rightarrow> json \<Rightarrow> exn + prediction_result" where
  \<comment> \<open>\<^verbatim>\<open>predict_text\<close> on arguments that need not be strings: \<^verbatim>\<open>content_type.lower()\<close>
      raises for a value that is not a string; \<^verbatim>\<open>preprocess_email\<close> returns the empty text
      for one, as for the empty string; the feature extraction raises for one, in the URL
      parser when the value is true and in the search of the IP pattern when it is false\<close>
  "predict_text_any chk s text0 ctype0 =
     (if \<not> models_loaded s then Inl (RuntimeError ''Models not loaded'')
      else
        (case ctype0 of
           JStr ctype \<Rightarrow>
             if lower ctype = ''email''
             then predict_email s (case text0 of JStr t \<Rightarrow> t | _ \<Rightarrow> [])
             else if lower ctype = ''url''
             then (case text0 of
                     JStr url \<Rightarrow> predict_url chk s url
                   | _ \<Rightarrow>
                       if truthy text0 then Inl (AttributeError ''object has no attribute decode'')
                       else Inl (TypeError ''expected string or bytes-like object''))
             else Inl (ValueError (''Invalid content type: '' @ ctype))
         | _ \<Rightarrow> Inl (AttributeError ''object has no attribute lower'')))"

datatype service_entry =
    ServiceSuccess prediction_result
  | ServiceFailure exn string

definition predict_item_attempt :: "(string \<Rightarrow> bool) \<Rightarrow> prediction_service \<Rightarrow> json \<Rightarrow> exn + prediction_result" where
  \<comment> \<open>the body of the \<^verbatim>\<open>try\<close>: \<^verbatim>\<open>self.predict_text(item['text'], item['type'])\<close>\<close>
  "predict_item_attempt chk s item =
     (case py_getitem item ''text'' of
        Inl e \<Rightarrow> Inl e
      | Inr text0 \<Rightarrow>
          (case py_getitem item ''type'' of
             Inl e \<Rightarrow> Inl e
           | Inr ctype0 \<Rightarrow> predict_text_any chk s text0 ctype0))"

definition text_preview :: "json \<Rightarrow> exn + string" where
  \<comment> \<open>\<^verbatim>\<open>item.get('text', '')[:50] + '...'\<close> in the handler: only an object has \<^verbatim>\<open>get\<close>, and
      only a string can be sliced and joined to a string\<close>
  "text_preview item =
     (case item of
        JObj kvs \<Rightarrow>
          (case map_of kvs ''text'' of
             None \<Rightarrow> Inr (take 50 [] @ ''...'')
           | Some (JStr t) \<Rightarrow> Inr (take 50 t @ ''...'')
           | Some _ \<Rightarrow> Inl (TypeError ''text is not a string''))
      | _ \<Rightarrow> Inl (AttributeError ''object has no attribute get''))"

definition predict_batch_item :: "(string \<Rightarrow> bool) \<Rightarrow> prediction_service \<Rightarrow> json \<Rightarrow> exn + service_entry" where
  \<comment> \<open>one round of the loop; \<open>Inl\<close> is an exception raised in the handler\<close>
  "predict_batch_item chk s item =
     (case predict_item_attempt chk s item of
        Inr result \<Rightarrow> Inr (ServiceSuccess result)
      | Inl e \<Rightarrow>
          (case text_preview item of
             Inl e' \<Rightarrow> Inl e'
           | Inr preview \<Rightarrow> Inr (ServiceFailure e preview)))"

fun predict_batch :: "(string \<Rightarrow> bool) \<Rightarrow> prediction_service \<Rightarrow> json list \<Rightarrow> exn + service_entry list" where
  \<comment> \<open>the loop stops at the first round that raises\<close>
  "predict_batch chk s [] = Inr []"
| "predict_batch chk s (item # items) =
     (case predict_batch_item chk s item of
        Inl e \<Rightarrow> Inl e
      | Inr entry \<Rightarrow>
          (case predict_batch chk s items of
             Inl e \<Rightarrow> Inl e
           | Inr entries \<Rightarrow> Inr (entry # entries)))"

definition text_member_ok :: "json \<Rightarrow> bool" where
  \<comment> \<open>the item is an object whose text, when it has one, is a string\<close>
  "text_member_ok item =
     (case item of
        JObj kvs \<Rightarrow>
          (case map_of kvs ''text'' of None \<Rightarrow> True | Some (JStr t) \<Rightarrow> True | Some _ \<Rightarrow> False)
      | _ \<Rightarrow> False)"

section \<open>The batch endpoint (api/routes.py)\<close>

definition round_half_even :: "real \<Rightarrow> int" where
  "round_half_even x =
     (let f = \<lfloor>x\<rfloor>; d = x - of_int f in
      if d < 1 / 2 then f else if d > 1 / 2 then f + 1 else if even f then f else f + 1)"

definition round4 :: "real \<Rightarrow> real" where
  \<comment> \<open>\<^verbatim>\<open>round(x, 4)\<close>, on the real number\<close>
  "round4 x = of_int (round_half_even (x * 10000)) / 10000"

record item_data =
  d_prediction :: string
  d_confidence :: real
  d_risk_level :: string
  d_detection_type :: string

record batch_entry =
  index :: nat
  success :: bool
  entry_error :: "string option"
  entry_data :: "item_data option"

datatype response =
    ErrorResponse nat string
  | BatchResponse "batch_entry list" nat nat

definition failure_entry :: "nat \<Rightarrow> string option \<Rightarrow> batch_entry" where
  "failure_entry i msg = \<lparr>index = i, success = False, entry_error = msg, entry_data = None\<rparr>"

definition process_item :: "(string \<Rightarrow> bool) \<Rightarrow> prediction_service \<Rightarrow> nat \<Rightarrow> json \<Rightarrow> batch_entry" where
  \<comment> \<open>one round of the loop: an item that fails validation gets its validation error, an
      exception of the prediction is caught and reported as a processing error\<close>
  "process_item chk s i item =
     (let validation_result = validate_prediction_input chk item in
      if \<not> is_valid validation_result then failure_entry i (error validation_result)
      else
        (case (py_getitem item ''text'', py_getitem item ''type'') of
           (Inr (JStr text), Inr (JStr ctype)) \<Rightarrow>
             (case predict chk s text ctype of
                Inl e \<Rightarrow> failure_entry i (Some ''Processing error'')
              | Inr r \<Rightarrow>
                  \<lparr>index = i, success = True, entry_error = None,
                    entry_data = Some \<lparr>d_prediction = prediction r,
                                       d_confidence = round4 (confidence r),
                                       d_risk_level = risk_level r,
                                       d_detection_type = ctype\<rparr>\<rparr>)
         | _ \<Rightarrow> failure_entry i (Some ''Processing error'')))"

fun batch_loop :: "(string \<Rightarrow> bool) \<Rightarrow> prediction_service \<Rightarrow> nat \<Rightarrow> json list \<Rightarrow> batch_entry list" where
  \<comment> \<open>\<^verbatim>\<open>for i, item in enumerate(items)\<close>, counting from the given index\<close>
  "batch_loop chk s i [] = []"
| "batch_loop chk s i (item # items) = process_item chk s i item # batch_loop chk s (Suc i) items"

definition batch_body :: "(string \<Rightarrow> bool) \<Rightarrow> prediction_service \<Rightarrow> json \<Rightarrow> exn + response" where
  \<comment> \<open>the body of the outer \<^verbatim>\<open>try\<close>, once the service is known to exist\<close>
  "batch_body chk s data =
     (if \<not> truthy data
      then Inr (ErrorResponse 400 ''Items array is required for batch prediction'')
      else
        (case py_in ''items'' data of
           Inl e \<Rightarrow> Inl e
         | Inr has_items \<Rightarrow>
             if \<not> has_items
             then Inr (ErrorResponse 400 ''Items array is required for batch prediction'')
             else
               (case py_getitem data ''items'' of
                  Inl e \<Rightarrow> Inl e
                | Inr (JArr items) \<Rightarrow>
                    if length items = 0
                    then Inr (ErrorResponse 400 ''Items must be a non-empty array'')
                    else if length items > 50
                    then Inr (ErrorResponse 400 ''Batch size cannot exceed 50 items'')
                    else
                      (let results = batch_loop chk s 0 items in
                       Inr (BatchResponse results (length items)
                              (length (filter success results))))
                | Inr _ \<Rightarrow> Inr (ErrorResponse 400 ''Items must be a non-empty array''))))"

definition api_batch_predict :: "(string \<Rightarrow> bool) \<Rightarrow> prediction_service option \<Rightarrow> json \<Rightarrow> response" where
  \<comment> \<open>the module's service object may be missing; an exception that escapes the body is
      answered with status 500\<close>
  "api_batch_predict chk service data =
     (case service of
        None \<Rightarrow> ErrorResponse 503 ''Prediction service unavailable''
      | Some s \<Rightarrow>
          (case batch_body chk s data of
             Inl e \<Rightarrow> ErrorResponse 500 ''Internal server error''
           | Inr r \<Rightarrow> r))"

definition batch_request :: "json list \<Rightarrow> json" where
  \<comment> \<open>the request body \<^verbatim>\<open>{"items": [...]}\<close>\<close>
  "batch_request items = JObj [(''items'', JArr items)]"

section \<open>Evaluation rules\<close>

lemma char_of_nat_eq: "char_of (n :: nat) = c \<longleftrightarrow> n mod 256 = of_char c"
  by (simp add: char_of_eq_iff take_bit_eq_mod)

lemmas char_defs =
  code_def is_space_def is_digit_def is_ascii_alpha_def is_word_def is_punct_def
  is_upper_def lower_char_def lower_def non_space_def strip_def char_of_nat_eq

lemmas url_defs =
  lstrip_c0_def remove_unsafe_def is_scheme_char_def after_scheme_def is_delim_def
  urlsplit_netloc_def octet_dot_def last_octet_def ip_match_at_def has_ip_address_def
  get_url_length_category_def shortening_services_def has_shortening_service_def
  has_at_symbol_def has_double_slash_redirect_def has_prefix_suffix_def
  count_subdomains_def heuristics_def extract_features_def

lemmas normalizer_defs =
  link_at_def link_len_def email_len_def digits_then_def opt_sep_def phone_len_def
  tag_len_def run_len_def remove_punctuation_def preprocess_email_def

lemmas service_defs =
  new_email_classifier_def new_url_classifier_def email_load_model_def url_load_model_def
  np_max_def sk_classify_def none_type_error_def email_predict_def url_predict_def
  new_prediction_service_def load_models_def calculate_risk_level_def predict_email_def
  predict_from_features_def predict_url_def predict_text_def predict_def
  const_model_def length_vectorizer_def good_store_def url_missing_store_def
  ready_service_def label_by_table_def

lemmas validator_defs =
  truthy_def py_in_def py_getitem_def invalid_def valid_def has_suspicious_pattern_def
  validate_email_content_def starts_with_http_def validate_url_content_def
  validate_text_content_def validate_checked_def validate_prediction_input_def

declare split_ws.simps [simp del]

lemmas routes_defs =
  failure_entry_def process_item_def batch_body_def api_batch_predict_def batch_request_def

lemmas service_batch_defs =
  predict_text_any_def predict_item_attempt_def text_preview_def predict_batch_item_def
  text_member_ok_def

section \<open>The feature vector\<close>

lemma length_heuristics: "length (heuristics url netloc) = 7"
  by (simp add: heuristics_def)

text \<open>
  C1 (as the claim states it, refuted): for expected dimension 3 the extractor does not
  return a vector of length 3. The loop that pads runs zero times and nothing removes
  an entry, so all seven heuristics are returned.
\<close>

theorem extract_features_not_truncated:
  "\<exists>v. extract_features (\<lambda>h. True) 3 ''http://a.com'' = Inr v \<and> length v = 7
       \<and> int (length v) \<noteq> 3"
  by (simp add: url_defs char_defs)

text \<open>
  C1 (amended): whenever the URL parser accepts the text, the extractor returns the seven
  heuristics followed by \<open>expected_features - 7\<close> zeros (none when that is negative), a
  vector of length \<open>max 7 expected_features\<close>; nothing is truncated. When the parser
  raises, the extractor raises the same exception.
\<close>

theorem extract_features_length:
  "(case urlsplit_netloc chk url of
      Inl e \<Rightarrow> extract_features chk n url = Inl e
    | Inr netloc \<Rightarrow>
        extract_features chk n url = Inr (heuristics url netloc @ replicate (nat (n - 7)) 0)
        \<and> int (length (heuristics url netloc @ replicate (nat (n - 7)) 0)) = max 7 n)"
  by (cases "urlsplit_netloc chk url")
     (auto simp: extract_features_def length_heuristics Let_def max_def)

theorem extract_features_length_witness:
  "extract_features (\<lambda>h. True) 10 ''http://a.com'' = Inr [-1, -1, -1, -1, -1, -1, -1, 0, 0, 0]
   \<and> extract_features (\<lambda>h. True) 3 ''http://a.com'' = Inr [-1, -1, -1, -1, -1, -1, -1]
   \<and> extract_features (\<lambda>h. True) 30 ''http://['' = Inl (ValueError ''Invalid IPv6 URL'')"
proof -
  have a: "urlsplit_netloc (\<lambda>h. True) ''http://a.com'' = Inr ''a.com''"
    by (simp add: url_defs char_defs)
  have b: "urlsplit_netloc (\<lambda>h. True) ''http://['' = Inl (ValueError ''Invalid IPv6 URL'')"
    by (simp add: url_defs char_defs)
  have h: "heuristics ''http://a.com'' ''a.com'' = [-1, -1, -1, -1, -1, -1, -1]"
    by (simp add: url_defs char_defs)
  show ?thesis
    using extract_features_length [where chk = "\<lambda>h. True" and url = "''http://a.com''" and n = 10]
      extract_features_length [where chk = "\<lambda>h. True" and url = "''http://a.com''" and n = 3]
      extract_features_length [where chk = "\<lambda>h. True" and url = "''http://[''" and n = 30]
    by (simp add: a b h numeral_3_eq_3)
qed

section \<open>The IP address feature\<close>

lemma dot_not_digit: "\<not> is_digit (CHR ''.'')"
  by (simp add: is_digit_def code_def)

lemma digit_is_word: "is_digit c \<Longrightarrow> is_word c"
  by (simp add: is_word_def)

lemma octet_dot_SomeD:
  assumes "octet_dot s = Some r"
  shows "\<exists>a. s = a @ ''.'' @ r \<and> digits13 a"
proof -
  let ?d = "takeWhile is_digit s" and ?r = "dropWhile is_digit s"
  from assms have len: "1 \<le> length ?d" "length ?d \<le> 3" and ne: "?r \<noteq> []"
    and hd: "hd ?r = CHR ''.''" and r: "r = tl ?r"
    by (auto simp: octet_dot_def Let_def split: if_splits)
  from ne hd r have "?r = CHR ''.'' # r" by (cases ?r) auto
  then have "s = ?d @ ''.'' @ r"
    using takeWhile_dropWhile_id [of is_digit s] by simp
  moreover have "digits13 ?d"
    using len by (auto simp: digits13_def list_all_iff dest: set_takeWhileD)
  ultimately show ?thesis by blast
qed

lemma octet_dot_append:
  assumes "digits13 a"
  shows "octet_dot (a @ ''.'' @ r) = Some r"
proof -
  from assms have all: "\<And>x. x \<in> set a \<Longrightarrow> is_digit x"
    by (simp add: digits13_def list_all_iff)
  have "takeWhile is_digit (a @ ''.'' @ r) = a"
    using all by (simp add: takeWhile_append2 dot_not_digit)
  moreover have "dropWhile is_digit (a @ ''.'' @ r) = ''.'' @ r"
    using all by (simp add: dropWhile_append2 dot_not_digit)
  ultimately show ?thesis using assms by (simp add: digits13_def octet_dot_def Let_def)
qed

lemma last_octetD:
  assumes "last_octet s"
  shows "\<exists>d post. s = d @ post \<and> digits13 d \<and> (post = [] \<or> \<not> is_word (hd post))"
proof -
  let ?d = "takeWhile is_digit s" and ?r = "dropWhile is_digit s"
  from assms have "1 \<le> length ?d" "length ?d \<le> 3" "?r = [] \<or> \<not> is_word (hd ?r)"
    by (auto simp: last_octet_def Let_def)
  moreover have "s = ?d @ ?r" by simp
  moreover have "list_all is_digit ?d" by (auto simp: list_all_iff dest: set_takeWhileD)
  ultimately show ?thesis unfolding digits13_def by blast
qed

lemma last_octet_append:
  assumes "digits13 d" and "post = [] \<or> \<not> is_word (hd post)"
  shows "last_octet (d @ post)"
proof -
  from assms have all: "\<And>x. x \<in> set d \<Longrightarrow> is_digit x"
    by (simp add: digits13_def list_all_iff)
  have p: "takeWhile is_digit post = []" "dropWhile is_digit post = post"
    using assms(2) by (cases post; auto dest: digit_is_word)+
  have "takeWhile is_digit (d @ post) = d" "dropWhile is_digit (d @ post) = post"
    using all p by (simp_all add: takeWhile_append2 dropWhile_append2)
  then show ?thesis using assms by (simp add: digits13_def last_octet_def Let_def)
qed

lemma ip_match_atD:
  assumes "ip_match_at prev s"
  shows "\<exists>a b c d post. s = a @ ''.'' @ b @ ''.'' @ c @ ''.'' @ d @ post
        \<and> digits13 a \<and> digits13 b \<and> digits13 c \<and> digits13 d
        \<and> (post = [] \<or> \<not> is_word (hd post)) \<and> boundary_before prev []"
proof -
  from assms obtain r1 r2 r3 where o: "octet_dot s = Some r1" "octet_dot r1 = Some r2"
      "octet_dot r2 = Some r3" "last_octet r3" and b: "boundary_before prev []"
    by (auto simp: ip_match_at_def boundary_before_def split: option.splits)
  from octet_dot_SomeD[OF o(1)] obtain a where a: "s = a @ ''.'' @ r1" "digits13 a" by blast
  from octet_dot_SomeD[OF o(2)] obtain b' where b': "r1 = b' @ ''.'' @ r2" "digits13 b'" by blast
  from octet_dot_SomeD[OF o(3)] obtain c where c: "r2 = c @ ''.'' @ r3" "digits13 c" by blast
  from last_octetD[OF o(4)] obtain d post where d: "r3 = d @ post" "digits13 d"
      "post = [] \<or> \<not> is_word (hd post)" by blast
  have "s = a @ ''.'' @ b' @ ''.'' @ c @ ''.'' @ d @ post"
    using a(1) b'(1) c(1) d(1) by simp
  with a(2) b'(2) c(2) d(2,3) b show ?thesis by blast
qed

lemma ip_match_at_quad:
  assumes "digits13 a" "digits13 b" "digits13 c" "digits13 d"
    and "post = [] \<or> \<not> is_word (hd post)" and "boundary_before prev []"
  shows "ip_match_at prev (a @ ''.'' @ b @ ''.'' @ c @ ''.'' @ d @ post)"
  using assms octet_dot_append last_octet_append
  by (simp add: ip_match_at_def boundary_before_def)

lemma ip_search_Nil: "\<not> ip_search prev []"
  by (simp add: ip_match_at_def octet_dot_def)

lemma ip_searchD:
  "ip_search prev s \<Longrightarrow>
     \<exists>pre m. s = pre @ m \<and> ip_match_at (if pre = [] then prev else Some (last pre)) m"
proof (induction s arbitrary: prev)
  case Nil
  then show ?case by (simp add: ip_search_Nil)
next
  case (Cons x xs)
  show ?case
  proof (cases "ip_match_at prev (x # xs)")
    case True
    then show ?thesis by (intro exI[of _ "[]"] exI[of _ "x # xs"]) simp
  next
    case False
    with Cons.prems have "ip_search (Some x) xs" by simp
    from Cons.IH[OF this] obtain pre m where
      "xs = pre @ m" "ip_match_at (if pre = [] then Some x else Some (last pre)) m" by blast
    then show ?thesis by (intro exI[of _ "x # pre"] exI[of _ m]) auto
  qed
qed

lemma ip_search_append:
  "ip_match_at (if pre = [] then prev else Some (last pre)) m \<Longrightarrow> ip_search prev (pre @ m)"
proof (induction pre arbitrary: prev)
  case Nil
  then show ?case by (cases m) (auto)
next
  case (Cons x pre)
  have "ip_search (Some x) (pre @ m)"
    using Cons.prems by (intro Cons.IH) (auto split: if_splits)
  then show ?case by simp
qed

lemma ip_search_iff: "ip_search None url = dotted_quad_in url"
proof
  assume "ip_search None url"
  from ip_searchD[OF this] obtain pre m where s: "url = pre @ m"
    and m: "ip_match_at (if pre = [] then None else Some (last pre)) m" by blast
  from ip_match_atD[OF m] obtain a b c d post where
    "m = a @ ''.'' @ b @ ''.'' @ c @ ''.'' @ d @ post"
    "digits13 a" "digits13 b" "digits13 c" "digits13 d" "post = [] \<or> \<not> is_word (hd post)"
    and bb: "boundary_before (if pre = [] then None else Some (last pre)) []" by blast
  moreover from bb have "pre = [] \<or> \<not> is_word (last pre)"
    by (auto simp: boundary_before_def split: if_splits)
  ultimately show "dotted_quad_in url" unfolding dotted_quad_in_def using s by blast
next
  assume "dotted_quad_in url"
  then obtain pre a b c d post where u: "url = pre @ a @ ''.'' @ b @ ''.'' @ c @ ''.'' @ d @ post"
    and q: "digits13 a" "digits13 b" "digits13 c" "digits13 d"
    and bs: "pre = [] \<or> \<not> is_word (last pre)" and be: "post = [] \<or> \<not> is_word (hd post)"
    unfolding dotted_quad_in_def by blast
  from bs have "boundary_before (if pre = [] then None else Some (last pre)) []"
    by (auto simp: boundary_before_def)
  from ip_match_at_quad[OF q be this] ip_search_append u
  show "ip_search None url" by blast
qed

lemma heuristics_nth0: "(heuristics url netloc @ zs) ! 0 = has_ip_address url"
  by (simp add: heuristics_def)

lemma heuristics_nth1: "(heuristics url netloc @ zs) ! 1 = get_url_length_category (length url)"
  by (simp add: heuristics_def)

text \<open>
  C6 (as the claim states it, refuted): the host \<^verbatim>\<open>example.com\<close> of
  \<^verbatim>\<open>http://example.com/1.2.3.4\<close> holds no IP literal, and feature 1 is 1 all the same:
  the pattern is searched in the whole URL text, as the docstring of
  \<^verbatim>\<open>_has_ip_address\<close> says.
\<close>

theorem ip_feature_outside_host:
  "urlsplit_netloc (\<lambda>h. True) ''http://example.com/1.2.3.4'' = Inr ''example.com''
   \<and> \<not> dotted_quad_in ''example.com''
   \<and> extract_features (\<lambda>h. True) 7 ''http://example.com/1.2.3.4''
       = Inr [1, -1, -1, -1, -1, -1, -1]"
proof -
  have "\<not> dotted_quad_in ''example.com''"
    unfolding ip_search_iff [symmetric] by (simp add: url_defs char_defs)
  moreover have "urlsplit_netloc (\<lambda>h. True) ''http://example.com/1.2.3.4'' = Inr ''example.com''"
    by (simp add: url_defs char_defs)
  moreover have "extract_features (\<lambda>h. True) 7 ''http://example.com/1.2.3.4''
       = Inr [1, -1, -1, -1, -1, -1, -1]"
    by (simp add: url_defs char_defs)
  ultimately show ?thesis by simp
qed

text \<open>
  C6 (amended): feature 1 of the extracted vector is 1 when the URL text, anywhere in it,
  holds four groups of one to three digits separated by dots between word boundaries,
  and -1 otherwise; feature 2 is the length category of the whole text. For
  \<^verbatim>\<open>http://192.168.0.1/login\<close> feature 1 is 1 and feature 2 is -1.
\<close>

theorem ip_feature_whole_url:
  assumes "extract_features chk n url = Inr v"
  shows "v ! 0 = (if dotted_quad_in url then 1 else -1)
       \<and> v ! 1 = (if length url < 54 then -1 else if length url \<le> 75 then 0 else 1)"
proof -
  from assms obtain netloc where
    v: "v = heuristics url netloc @ replicate (nat (n - int (length (heuristics url netloc)))) 0"
    by (auto simp: extract_features_def Let_def split: sum.splits)
  have "v ! 0 = has_ip_address url" by (subst v) (rule heuristics_nth0)
  moreover have "v ! 1 = get_url_length_category (length url)"
    by (subst v) (rule heuristics_nth1)
  ultimately show ?thesis
    by (simp add: has_ip_address_def ip_search_iff get_url_length_category_def)
qed

theorem ip_feature_whole_url_witness:
  "extract_features (\<lambda>h. True) 7 ''http://192.168.0.1/login'' = Inr [1, -1, -1, -1, -1, -1, 1]
   \<and> dotted_quad_in ''http://192.168.0.1/login''
   \<and> length ''http://192.168.0.1/login'' < 54"
proof -
  have e: "extract_features (\<lambda>h. True) 7 ''http://192.168.0.1/login''
      = Inr [1, -1, -1, -1, -1, -1, 1]"
    by (simp add: url_defs char_defs)
  from ip_feature_whole_url [OF e] have "dotted_quad_in ''http://192.168.0.1/login''"
    by (simp split: if_splits)
  with e show ?thesis by simp
qed

section \<open>Texts without an authority part\<close>

lemma contains_iff_sublist: "contains sub s = sublist sub s"
  by (induction s) (auto simp: sublist_Cons_right)

lemma after_scheme_suffix: "\<exists>ps. u = ps @ after_scheme u"
proof (cases "after_scheme u = u")
  case True
  then show ?thesis by (intro exI[of _ "[]"]) simp
next
  case False
  then have "after_scheme u = drop (Suc (length (takeWhile (\<lambda>c. c \<noteq> CHR '':'') u))) u"
    by (simp add: after_scheme_def Let_def split: if_splits)
  then show ?thesis by (metis append_take_drop_id)
qed

lemma cleaned_suffix:
  "\<exists>ps. remove_unsafe url = ps @ after_scheme (remove_unsafe (lstrip_c0 url))"
proof -
  have "url = takeWhile (\<lambda>c. code c \<le> 32) url @ lstrip_c0 url"
    by (simp add: lstrip_c0_def)
  then have "remove_unsafe url
      = remove_unsafe (takeWhile (\<lambda>c. code c \<le> 32) url) @ remove_unsafe (lstrip_c0 url)"
    by (metis filter_append remove_unsafe_def)
  moreover obtain qs where "remove_unsafe (lstrip_c0 url)
      = qs @ after_scheme (remove_unsafe (lstrip_c0 url))"
    using after_scheme_suffix by blast
  ultimately show ?thesis by (metis append.assoc)
qed

lemma empty_host_iff:
  "urlsplit_netloc chk url = Inr [] \<longleftrightarrow>
     (let t = after_scheme (remove_unsafe (lstrip_c0 url))
      in take 2 t = ''//'' \<longrightarrow> takeWhile (\<lambda>c. \<not> is_delim c) (drop 2 t) = [])"
proof -
  define t where "t = after_scheme (remove_unsafe (lstrip_c0 url))"
  define netloc where "netloc = takeWhile (\<lambda>c. \<not> is_delim c) (drop 2 t)"
  have u: "urlsplit_netloc chk url =
      (if take 2 t = ''//'' then
         (if (CHR ''['' \<in> set netloc \<and> CHR '']'' \<notin> set netloc)
             \<or> (CHR '']'' \<in> set netloc \<and> CHR ''['' \<notin> set netloc)
          then Inl (ValueError ''Invalid IPv6 URL'')
          else if CHR ''['' \<in> set netloc \<and> CHR '']'' \<in> set netloc \<and>
                  \<not> chk (takeWhile (\<lambda>c. c \<noteq> CHR '']'')
                           (drop 1 (dropWhile (\<lambda>c. c \<noteq> CHR ''['') netloc)))
          then Inl (ValueError ''invalid bracketed host'')
          else Inr netloc)
       else Inr [])"
    unfolding urlsplit_netloc_def Let_def t_def netloc_def by (rule refl)
  have "urlsplit_netloc chk url = Inr [] \<longleftrightarrow> (take 2 t = ''//'' \<longrightarrow> netloc = [])"
    unfolding u by (cases "netloc = []") auto
  then show ?thesis unfolding Let_def t_def netloc_def .
qed

lemma no_double_slash_start:
  assumes "\<not> contains ''//'' (remove_unsafe url)"
  shows "take 2 (after_scheme (remove_unsafe (lstrip_c0 url))) \<noteq> ''//''"
proof
  let ?t = "after_scheme (remove_unsafe (lstrip_c0 url))"
  assume t: "take 2 ?t = ''//''"
  have "?t = take 2 ?t @ drop 2 ?t" by simp
  with t have "?t = ''//'' @ drop 2 ?t" by metis
  moreover obtain ps where "remove_unsafe url = ps @ ?t" using cleaned_suffix by blast
  ultimately have "sublist ''//'' (remove_unsafe url)"
    unfolding sublist_def by metis
  with assms show False by (simp add: contains_iff_sublist)
qed

lemma empty_host_features:
  "heuristics url [] ! 5 = -1 \<and> heuristics url [] ! 6 = -1"
  by (simp add: heuristics_def has_prefix_suffix_def count_subdomains_def)

text \<open>
  C9 (as the claim states it, refuted): \<^verbatim>\<open>ftp://my-bank.secure.login.example.com/\<close>
  starts with neither \<^verbatim>\<open>http://\<close> nor \<^verbatim>\<open>https://\<close>, the validator accepts it as a
  URL, and the parser finds its host: features 6 and 7 are both 1.
\<close>

theorem other_scheme_has_host:
  "\<not> starts_with_http ''ftp://my-bank.secure.login.example.com/''
   \<and> validate_prediction_input (\<lambda>h. True)
        (JObj [(''text'', JStr ''ftp://my-bank.secure.login.example.com/''),
               (''type'', JStr ''url'')]) = valid
   \<and> extract_features (\<lambda>h. True) 7 ''ftp://my-bank.secure.login.example.com/''
       = Inr [-1, -1, -1, -1, -1, 1, 1]"
proof -
  have n: "urlsplit_netloc (\<lambda>h. True) ''http://ftp://my-bank.secure.login.example.com/''
      = Inr ''ftp:''"
    by (simp add: url_defs char_defs)
  have v: "validate_prediction_input (\<lambda>h. True)
        (JObj [(''text'', JStr ''ftp://my-bank.secure.login.example.com/''),
               (''type'', JStr ''url'')]) = valid"
    by (simp add: validator_defs char_defs n)
  have e: "extract_features (\<lambda>h. True) 7 ''ftp://my-bank.secure.login.example.com/''
       = Inr [-1, -1, -1, -1, -1, 1, 1]"
    by (simp add: url_defs char_defs)
  show ?thesis by (simp add: v e starts_with_http_def)
qed

text \<open>
  C9 (amended): take the text as the parser reads it: leading control characters and
  spaces stripped, TAB, CR and LF deleted, a leading \<^verbatim>\<open>scheme:\<close> split off. For every text
  that, read so, does not begin with \<^verbatim>\<open>//\<close> followed by a host character (one other than
  \<^verbatim>\<open>/\<close>, \<^verbatim>\<open>?\<close> and \<^verbatim>\<open>#\<close>), the parser finds an empty host, so features 6 and 7 are both -1
  whatever hyphens and dots the text holds; and the prediction hands the classifier the
  features of the text as it came, without a scheme put in front. A bare host and path
  such as \<^verbatim>\<open>my-bank.secure.login.example.com//login\<close> is such a text.
\<close>

theorem features_without_authority:
  assumes "let t = after_scheme (remove_unsafe (lstrip_c0 url))
           in take 2 t = ''//'' \<longrightarrow> takeWhile (\<lambda>c. \<not> is_delim c) (drop 2 t) = []"
  shows "urlsplit_netloc chk url = Inr []
       \<and> extract_features chk n url = Inr (heuristics url [] @ replicate (nat (n - 7)) 0)
       \<and> (heuristics url [] @ replicate (nat (n - 7)) 0) ! 5 = -1
       \<and> (heuristics url [] @ replicate (nat (n - 7)) 0) ! 6 = -1
       \<and> predict_url chk s url
           = predict_from_features s
               (heuristics url [] @ replicate (nat (expected_features (url_clf s) - 7)) 0)"
proof -
  have nl: "urlsplit_netloc chk url = Inr []" using assms by (simp only: empty_host_iff)
  have ef: "\<And>k. extract_features chk k url = Inr (heuristics url [] @ replicate (nat (k - 7)) 0)"
    by (simp add: extract_features_def nl heuristics_def)
  have "length (heuristics url []) = 7" by (simp add: heuristics_def)
  then have "(heuristics url [] @ replicate (nat (n - 7)) 0) ! 5 = heuristics url [] ! 5"
    "(heuristics url [] @ replicate (nat (n - 7)) 0) ! 6 = heuristics url [] ! 6"
    by (simp_all add: nth_append)
  then show ?thesis using nl ef empty_host_features by (simp add: predict_url_def)
qed

theorem features_without_authority_witness:
  "\<not> starts_with_http ''my-bank.secure.login.example.com//login''
   \<and> contains ''//'' ''my-bank.secure.login.example.com//login''
   \<and> urlsplit_netloc (\<lambda>h. True) ''my-bank.secure.login.example.com//login'' = Inr []
   \<and> extract_features (\<lambda>h. True) 7 ''my-bank.secure.login.example.com//login''
       = Inr [-1, -1, -1, -1, -1, -1, -1]"
proof -
  have h: "let t = after_scheme (remove_unsafe (lstrip_c0 ''my-bank.secure.login.example.com//login''))
           in take 2 t = ''//'' \<longrightarrow> takeWhile (\<lambda>c. \<not> is_delim c) (drop 2 t) = []"
    by (simp add: url_defs char_defs)
  have f: "heuristics ''my-bank.secure.login.example.com//login'' [] = [-1, -1, -1, -1, -1, -1, -1]"
    by (simp add: url_defs char_defs)
  have c: "contains ''//'' ''my-bank.secure.login.example.com//login''"
    by (simp add: char_defs)
  from features_without_authority [OF h, where chk = "\<lambda>h. True" and n = 7] c
  show ?thesis by (simp add: f starts_with_http_def)
qed

section \<open>Risk level\<close>

text \<open>
  C4: \<^verbatim>\<open>_calculate_risk_level\<close> is a function of the confidence and of whether the label
  is Phishing (the callers pass \<^verbatim>\<open>prediction == "Phishing"\<close>), with a value for every
  argument: label Safe gives Low; label Phishing gives High from 0.8 on, Medium from 0.6
  up to 0.8, and Low below 0.6. It holds for every confidence, inside [0,1] or not.
\<close>

theorem calculate_risk_level_table:
  "(label = ''Safe'' \<longrightarrow> calculate_risk_level c (label = ''Phishing'') = ''Low'')
   \<and> (label = ''Phishing'' \<and> c \<ge> 0.8 \<longrightarrow> calculate_risk_level c (label = ''Phishing'') = ''High'')
   \<and> (label = ''Phishing'' \<and> 0.6 \<le> c \<and> c < 0.8
        \<longrightarrow> calculate_risk_level c (label = ''Phishing'') = ''Medium'')
   \<and> (label = ''Phishing'' \<and> c < 0.6 \<longrightarrow> calculate_risk_level c (label = ''Phishing'') = ''Low'')"
  by (auto simp: calculate_risk_level_def)

theorem calculate_risk_level_table_witness:
  "calculate_risk_level 0.95 (''Safe'' = ''Phishing'') = ''Low''
   \<and> calculate_risk_level 0.8 (''Phishing'' = ''Phishing'') = ''High''
   \<and> calculate_risk_level 0.6 (''Phishing'' = ''Phishing'') = ''Medium''
   \<and> calculate_risk_level 0.59 (''Phishing'' = ''Phishing'') = ''Low''"
  using calculate_risk_level_table [where label = "''Safe''" and c = "0.95"]
    calculate_risk_level_table [where label = "''Phishing''" and c = "0.8"]
    calculate_risk_level_table [where label = "''Phishing''" and c = "0.6"]
    calculate_risk_level_table [where label = "''Phishing''" and c = "0.59"]
  by simp

section \<open>The label of a prediction\<close>

lemma predict_from_features_label:
  "predict_from_features s fv = Inr r \<Longrightarrow>
     prediction r = (if raw_prediction r = 1 then ''Phishing'' else ''Safe'')"
  by (auto simp: predict_from_features_def Let_def split: sum.splits prod.splits)

lemma predict_email_label:
  "predict_email s input = Inr r \<Longrightarrow>
     prediction r = (if raw_prediction r = 1 then ''Phishing'' else ''Safe'')"
  by (auto simp: predict_email_def Let_def split: sum.splits prod.splits)

lemma predict_text_label:
  "predict_text chk s input ctype = Inr r \<Longrightarrow>
     prediction r = (if raw_prediction r = 1 then ''Phishing'' else ''Safe'')"
  by (auto simp: predict_text_def predict_url_def
      dest: predict_from_features_label predict_email_label split: if_splits sum.splits)

lemma ready_loaded: "models_loaded (ready_service raw probs)"
  by (simp add: service_defs)

lemma ready_url_predict:
  "url_predict (url_clf (ready_service 0 [0.1, 0.9])) fv = Inr (0, 0.9)"
  by (simp add: service_defs)

text \<open>
  C5 (as the claim states it, refuted): for a model whose verified table maps raw label
  0 to Phishing, the service answers Safe; and where the specification rejects an
  unverified mapping, the service has nothing to reject: no table is part of its state.
\<close>

theorem label_ignores_table:
  "label_by_table [0 \<mapsto> ''Phishing'', 1 \<mapsto> ''Safe''] True 0 = Some ''Phishing''
   \<and> label_by_table [0 \<mapsto> ''Phishing'', 1 \<mapsto> ''Safe''] False 0 = None
   \<and> map_sum id prediction
        (predict_text (\<lambda>h. True) (ready_service 0 [0.1, 0.9]) ''http://a.com'' ''url'')
       = Inr ''Safe''"
proof -
  have "extract_features (\<lambda>h. True) 30 ''http://a.com'' = Inr ([-1, -1, -1, -1, -1, -1, -1] @ replicate 23 0)"
    by (simp add: url_defs char_defs)
  moreover have "expected_features (url_clf (ready_service 0 [0.1, 0.9])) = 30"
    by (simp add: service_defs)
  moreover have "lower ''url'' = ''url''" by (simp add: char_defs)
  ultimately show ?thesis
    using ready_loaded [of 0 "[0.1, 0.9]"] ready_url_predict
    by (simp add: predict_text_def predict_url_def predict_from_features_def label_by_table_def char_defs)
qed

text \<open>
  C5 (amended): the semantic label is fixed in the code, the same for emails and URLs:
  raw label 1 is Phishing and every other raw label is Safe. Whenever the classifier
  returns a raw label, the prediction is made with that label; no mapping table is read
  and no prediction is refused for its mapping.
\<close>

theorem label_is_hard_coded:
  "(predict_text chk s input ctype = Inr r
      \<longrightarrow> prediction r = (if raw_prediction r = 1 then ''Phishing'' else ''Safe''))
   \<and> (email_predict (email_clf s) (preprocess_email input) = Inr (raw, conf)
      \<longrightarrow> (\<exists>r'. predict_email s input = Inr r' \<and> raw_prediction r' = raw
               \<and> prediction r' = (if raw = 1 then ''Phishing'' else ''Safe'')))
   \<and> (url_predict (url_clf s) fv = Inr (raw, conf)
      \<longrightarrow> (\<exists>r'. predict_from_features s fv = Inr r' \<and> raw_prediction r' = raw
               \<and> prediction r' = (if raw = 1 then ''Phishing'' else ''Safe'')))"
  using predict_text_label [of chk s input ctype r]
  by (auto simp: predict_email_def predict_from_features_def Let_def)

theorem label_is_hard_coded_witness:
  "\<exists>r. predict_from_features (ready_service 0 [0.1, 0.9]) [] = Inr r \<and> raw_prediction r = 0
       \<and> prediction r = ''Safe''"
  using label_is_hard_coded [where s = "ready_service 0 [0.1, 0.9]" and fv = "[]" and raw = 0
      and conf = "0.9" and input = "[]" and ctype = "[]" and chk = "\<lambda>h. True"]
    ready_url_predict [of "[]"]
  by simp

section \<open>Loading the models\<close>

lemma email_load_loaded:
  "email_load_model store c = (Inr u, c') \<Longrightarrow> em_is_loaded c'"
  by (auto simp: email_load_model_def split: sum.splits)

lemma url_load_loaded:
  "url_load_model store c = (Inr u, c') \<Longrightarrow> url_is_loaded c'"
  by (auto simp: url_load_model_def split: sum.splits)

lemma load_models_flag:
  assumes "\<not> models_loaded s" and "load_models store s = (res, s')"
  shows "models_loaded s' \<longleftrightarrow> res = Inr ()"
    and "res = Inr () \<Longrightarrow> em_is_loaded (email_clf s') \<and> url_is_loaded (url_clf s')"
    and "res = Inr () \<longleftrightarrow> dir_exists store \<and> \<not> isl (email_classifier_pkl store)
           \<and> \<not> isl (email_vectorizer_pkl store) \<and> \<not> isl (url_classifier_pkl store)"
  using assms
  by (auto simp: load_models_def email_load_model_def url_load_model_def
      split: if_splits sum.splits prod.splits)

lemma email_predict_not_loaded:
  "\<not> em_is_loaded c \<Longrightarrow> email_predict c x = Inl (RuntimeError ''Model not loaded'')"
  by (simp add: email_predict_def)

lemma url_predict_not_loaded:
  "\<not> url_is_loaded c \<Longrightarrow> url_predict c fv = Inl (RuntimeError ''Model not loaded'')"
  by (simp add: url_predict_def)

lemma new_service_not_loaded:
  "\<not> models_loaded new_prediction_service
   \<and> \<not> em_is_loaded (email_clf new_prediction_service)
   \<and> \<not> url_is_loaded (url_clf new_prediction_service)"
  by (simp add: new_prediction_service_def new_email_classifier_def new_url_classifier_def)

text \<open>
  C8: in a service whose \<open>models_loaded\<close> flag is not set, every prediction fails with
  the error ``Models not loaded''. A load from such a state sets the flag exactly when it
  succeeds, which is exactly when the directory exists and all three files load, and then
  both classifiers are loaded. When the load fails, the flag stays unset and every
  prediction is refused.
\<close>

theorem no_prediction_before_load:
  assumes "\<not> models_loaded s"
  shows "predict_text chk s input ctype = Inl (RuntimeError ''Models not loaded'')
       \<and> predict chk s input ctype = Inl (RuntimeError ''Models not loaded'')
       \<and> (case load_models store s of (res, s') \<Rightarrow>
            (models_loaded s' \<longleftrightarrow> res = Inr ())
            \<and> (models_loaded s' \<longrightarrow> em_is_loaded (email_clf s') \<and> url_is_loaded (url_clf s'))
            \<and> (res = Inr () \<longleftrightarrow> dir_exists store \<and> \<not> isl (email_classifier_pkl store)
                 \<and> \<not> isl (email_vectorizer_pkl store) \<and> \<not> isl (url_classifier_pkl store))
            \<and> (res \<noteq> Inr () \<longrightarrow>
                 (\<forall>input' ctype'. predict_text chk s' input' ctype'
                     = Inl (RuntimeError ''Models not loaded''))))"
proof -
  obtain res s' where l: "load_models store s = (res, s')" by (cases "load_models store s")
  note f = load_models_flag [OF assms l]
  have "res \<noteq> Inr () \<longrightarrow> (\<forall>input' ctype'. predict_text chk s' input' ctype'
                     = Inl (RuntimeError ''Models not loaded''))"
    using f(1) by (simp add: predict_text_def)
  then show ?thesis using assms f l by (simp add: predict_text_def predict_def)
qed

theorem no_prediction_before_load_witness:
  "predict_text (\<lambda>h. True) new_prediction_service ''hello there'' ''email''
     = Inl (RuntimeError ''Models not loaded'')
   \<and> fst (load_models url_missing_store new_prediction_service) \<noteq> Inr ()
   \<and> \<not> models_loaded (snd (load_models url_missing_store new_prediction_service))
   \<and> em_is_loaded (email_clf (snd (load_models url_missing_store new_prediction_service)))
   \<and> predict_text (\<lambda>h. True) (snd (load_models url_missing_store new_prediction_service))
        ''hello there'' ''email'' = Inl (RuntimeError ''Models not loaded'')
   \<and> models_loaded (snd (load_models (good_store 1 [0.1, 0.9]) new_prediction_service))"
proof -
  have n: "\<not> models_loaded new_prediction_service" by (simp add: new_prediction_service_def)
  have a: "fst (load_models url_missing_store new_prediction_service) \<noteq> Inr ()"
    by (simp add: service_defs)
  have b: "em_is_loaded (email_clf (snd (load_models url_missing_store new_prediction_service)))"
    by (simp add: service_defs)
  have c: "fst (load_models (good_store 1 [0.1, 0.9]) new_prediction_service) = Inr ()"
    by (simp add: service_defs)
  show ?thesis
    using no_prediction_before_load [OF n, where store = url_missing_store and chk = "\<lambda>h. True"
        and input = "''hello there''" and ctype = "''email''"]
      no_prediction_before_load [OF n, where store = "good_store 1 [0.1, 0.9]" and chk = "\<lambda>h. True"
        and input = "''hello there''" and ctype = "''email''"]
      a b c
    by (auto simp: split_beta)
qed

section \<open>The batch endpoint\<close>

lemma length_batch_loop: "length (batch_loop chk s k items) = length items"
  by (induction items arbitrary: k) auto

lemma nth_batch_loop:
  "i < length items \<Longrightarrow> batch_loop chk s k items ! i = process_item chk s (k + i) (items ! i)"
proof (induction items arbitrary: k i)
  case Nil
  then show ?case by simp
next
  case (Cons x xs)
  then show ?case by (cases i) auto
qed

lemma index_process_item: "index (process_item chk s i item) = i"
  by (auto simp: process_item_def failure_entry_def Let_def
      split: sum.splits json.splits prod.splits)

lemma batch_body_items:
  "batch_body chk s (batch_request items) =
     Inr (if items = [] then ErrorResponse 400 ''Items must be a non-empty array''
          else if length items > 50 then ErrorResponse 400 ''Batch size cannot exceed 50 items''
          else BatchResponse (batch_loop chk s 0 items) (length items)
                 (length (filter success (batch_loop chk s 0 items))))"
  by (simp add: batch_body_def batch_request_def truthy_def py_in_def py_getitem_def Let_def)

text \<open>
  C7: a batch request whose item list is empty is rejected as a whole, one with more
  than 50 items is rejected as a whole with the batch-size error, and neither answer
  holds a result for an item; a list of 1 to 50 items is accepted and answered with one
  result for each item.
\<close>

theorem batch_size_gate:
  "(items = [] \<longrightarrow>
      api_batch_predict chk (Some s) (batch_request items)
        = ErrorResponse 400 ''Items must be a non-empty array'')
   \<and> (length items > 50 \<longrightarrow>
      api_batch_predict chk (Some s) (batch_request items)
        = ErrorResponse 400 ''Batch size cannot exceed 50 items'')
   \<and> (1 \<le> length items \<and> length items \<le> 50 \<longrightarrow>
      api_batch_predict chk (Some s) (batch_request items)
        = BatchResponse (batch_loop chk s 0 items) (length items)
            (length (filter success (batch_loop chk s 0 items)))
      \<and> length (batch_loop chk s 0 items) = length items)"
  by (auto simp: api_batch_predict_def batch_body_items length_batch_loop)

theorem batch_size_gate_witness:
  "api_batch_predict (\<lambda>h. True) (Some new_prediction_service) (batch_request [])
     = ErrorResponse 400 ''Items must be a non-empty array''
   \<and> api_batch_predict (\<lambda>h. True) (Some new_prediction_service) (batch_request (replicate 51 JNull))
     = ErrorResponse 400 ''Batch size cannot exceed 50 items''
   \<and> api_batch_predict (\<lambda>h. True) (Some new_prediction_service) (batch_request [JNull])
     = BatchResponse (batch_loop (\<lambda>h. True) new_prediction_service 0 [JNull]) 1
         (length (filter success (batch_loop (\<lambda>h. True) new_prediction_service 0 [JNull])))"
  using batch_size_gate [where items = "[]" and chk = "\<lambda>h. True" and s = new_prediction_service]
    batch_size_gate [where items = "replicate 51 JNull" and chk = "\<lambda>h. True" and s = new_prediction_service]
    batch_size_gate [where items = "[JNull]" and chk = "\<lambda>h. True" and s = new_prediction_service]
  by simp

lemma process_item_invalid:
  "\<not> is_valid (validate_prediction_input chk item) \<Longrightarrow>
     process_item chk s i item = failure_entry i (error (validate_prediction_input chk item))"
  by (simp add: process_item_def)

lemma process_item_raises:
  "is_valid (validate_prediction_input chk item) \<Longrightarrow>
   py_getitem item ''text'' = Inr (JStr t) \<Longrightarrow> py_getitem item ''type'' = Inr (JStr ty) \<Longrightarrow>
   predict chk s t ty = Inl e \<Longrightarrow>
     process_item chk s i item = failure_entry i (Some ''Processing error'')"
  by (simp add: process_item_def)

lemma v0: "validate_prediction_input (\<lambda>h. True)
       (JObj [(''text'', JStr ''ok valid text here''), (''type'', JStr ''email'')]) = valid"
  by (simp add: validator_defs char_defs split_ws.simps)

lemma v1: "validate_prediction_input (\<lambda>h. True)
       (JObj [(''text'', JStr ''x''), (''type'', JStr ''bogus'')])
     = invalid ''Type must be one of: email, url''"
  by (simp add: validator_defs char_defs)

lemma pe: "preprocess_email ''ok valid text here'' = ''ok valid text here''"
  by (simp add: normalizer_defs char_defs)

lemma p0: "process_item (\<lambda>h. True) (ready_service 0 [0.1, 0.9]) 0
       (JObj [(''text'', JStr ''ok valid text here''), (''type'', JStr ''email'')])
     = \<lparr>index = 0, success = True, entry_error = None,
        entry_data = Some \<lparr>d_prediction = ''Safe'', d_confidence = 0.9,
                           d_risk_level = ''Low'', d_detection_type = ''email''\<rparr>\<rparr>"
  by (simp add: process_item_def v0 valid_def py_getitem_def service_defs pe char_defs
      round4_def round_half_even_def)

lemma predict_text_any_strings:
  "predict_text_any chk s (JStr t) (JStr ty) = predict_text chk s t ty"
  by (simp add: predict_text_any_def predict_text_def)

lemma text_preview_ok: "text_member_ok item \<longleftrightarrow> \<not> isl (text_preview item)"
  by (simp add: text_member_ok_def text_preview_def split: json.splits option.splits)

lemma predict_batch_item_returns:
  "text_member_ok item \<or> \<not> isl (predict_item_attempt chk s item) \<Longrightarrow>
     \<not> isl (predict_batch_item chk s item)"
  by (auto simp: predict_batch_item_def text_preview_ok split: sum.splits)

lemma predict_batch_map:
  "\<forall>item \<in> set items. \<not> isl (predict_batch_item chk s item) \<Longrightarrow>
     predict_batch chk s items = Inr (map (\<lambda>item. projr (predict_batch_item chk s item)) items)"
  by (induction items) (auto split: sum.splits)

lemma predict_batch_item_success:
  "predict_item_attempt chk s item = Inr r \<Longrightarrow>
     predict_batch_item chk s item = Inr (ServiceSuccess r)"
  by (simp add: predict_batch_item_def)

lemma predict_batch_item_failure:
  "predict_item_attempt chk s item = Inl e \<Longrightarrow> text_member_ok item \<Longrightarrow>
     \<exists>p. text_preview item = Inr p \<and> predict_batch_item chk s item = Inr (ServiceFailure e p)"
  by (cases "text_preview item") (simp_all add: predict_batch_item_def text_preview_ok)

text \<open>
  The failed entry is built from the text of the item, so an item whose prediction raises
  and whose text is not a string (or that is not an object) makes the handler raise: the
  whole batch raises, whatever the other items are, and no entry is returned.
\<close>

lemma predict_batch_raises:
  "item \<in> set items \<Longrightarrow> isl (predict_batch_item chk s item) \<Longrightarrow>
     isl (predict_batch chk s items)"
  by (induction items) (auto split: sum.splits)

lemma predict_batch_null_text:
  "predict_batch (\<lambda>h. True) (ready_service 0 [0.1, 0.9])
     [JObj [(''text'', JStr ''ok valid text here''), (''type'', JStr ''email'')],
      JObj [(''text'', JNull), (''type'', JStr ''url'')]]
     = Inl (TypeError ''text is not a string'')"
  by (simp add: service_batch_defs py_getitem_def truthy_def service_defs pe char_defs)

lemma a0: "predict_item_attempt (\<lambda>h. True) (ready_service 0 [0.1, 0.9])
       (JObj [(''text'', JStr ''ok valid text here''), (''type'', JStr ''email'')])
     = Inr \<lparr>prediction = ''Safe'', confidence = 0.9, risk_level = ''Low'',
            content_type = ''email'', raw_prediction = 0,
            processed_text = Some ''ok valid text here''\<rparr>"
  by (simp add: service_batch_defs py_getitem_def service_defs pe char_defs)

lemma a1: "predict_item_attempt (\<lambda>h. True) (ready_service 0 [0.1, 0.9])
       (JObj [(''text'', JStr ''x''), (''type'', JStr ''bogus'')])
     = Inl (ValueError ''Invalid content type: bogus'')"
  by (simp add: service_batch_defs py_getitem_def service_defs char_defs)

text \<open>
  C3 (as the claim states it, refuted): \<^verbatim>\<open>predict_batch\<close> of the service validates
  nothing. The two-character email that the validator rejects is not a failure entry of
  its batch: it is classified, and its entry is a success. The entries of
  \<^verbatim>\<open>predict_batch\<close> carry no index either.
\<close>

theorem predict_batch_no_validation:
  "validate_prediction_input (\<lambda>h. True) (JObj [(''text'', JStr ''hi''), (''type'', JStr ''email'')])
     = invalid ''Text content is too short (min 3 characters)''
   \<and> predict_batch (\<lambda>h. True) (ready_service 0 [0.1, 0.9])
        [JObj [(''text'', JStr ''hi''), (''type'', JStr ''email'')]]
     = Inr [ServiceSuccess
             \<lparr>prediction = ''Safe'', confidence = 0.9, risk_level = ''Low'',
              content_type = ''email'', raw_prediction = 0, processed_text = Some ''hi''\<rparr>]"
proof -
  have v: "validate_prediction_input (\<lambda>h. True)
        (JObj [(''text'', JStr ''hi''), (''type'', JStr ''email'')])
      = invalid ''Text content is too short (min 3 characters)''"
    by (simp add: validator_defs char_defs split_ws.simps)
  have p: "preprocess_email ''hi'' = ''hi''"
    by (simp add: normalizer_defs char_defs re_sub.simps)
  have b: "predict_batch (\<lambda>h. True) (ready_service 0 [0.1, 0.9])
        [JObj [(''text'', JStr ''hi''), (''type'', JStr ''email'')]]
      = Inr [ServiceSuccess
             \<lparr>prediction = ''Safe'', confidence = 0.9, risk_level = ''Low'',
              content_type = ''email'', raw_prediction = 0, processed_text = Some ''hi''\<rparr>]"
    by (simp add: service_batch_defs py_getitem_def service_defs p char_defs)
  show ?thesis using v b by simp
qed

text \<open>
  C3 (amended). The endpoint \<^verbatim>\<open>api_batch_predict\<close>: for a batch of N items, 1 to 50, it
  answers with exactly N results; the result at position i carries index i and is what
  item i alone produces, whatever the other items are. An item that fails validation gets
  a failure entry with its validation error, an item whose prediction raises gets a
  failure entry with ``Processing error'', and the loop goes on.
  \<^verbatim>\<open>predict_batch\<close> of the service: for a batch of any length in which every item is an
  object whose text, when it has one, is a string, or is an item whose prediction returns,
  it returns exactly N entries; the entry at position i is what item i alone produces: a
  success with the prediction when the prediction returns, a failure with the exception
  when it raises, and the loop goes on. Its entries carry no index and it runs no
  validation.
\<close>

theorem batch_results_aligned:
  "(items \<noteq> [] \<and> length items \<le> 50 \<longrightarrow>
     (\<exists>results n_ok.
           api_batch_predict chk (Some s) (batch_request items)
             = BatchResponse results (length items) n_ok
           \<and> length results = length items
           \<and> (\<forall>i < length items.
                index (results ! i) = i
                \<and> results ! i = process_item chk s i (items ! i)
                \<and> (\<not> is_valid (validate_prediction_input chk (items ! i)) \<longrightarrow>
                     results ! i
                       = failure_entry i (error (validate_prediction_input chk (items ! i))))
                \<and> (\<forall>t ty e.
                     is_valid (validate_prediction_input chk (items ! i))
                     \<and> py_getitem (items ! i) ''text'' = Inr (JStr t)
                     \<and> py_getitem (items ! i) ''type'' = Inr (JStr ty)
                     \<and> predict chk s t ty = Inl e \<longrightarrow>
                     results ! i = failure_entry i (Some ''Processing error'')))))
   \<and> ((\<forall>item \<in> set items.
          text_member_ok item \<or> \<not> isl (predict_item_attempt chk s item)) \<longrightarrow>
     (\<exists>entries.
           predict_batch chk s items = Inr entries
           \<and> length entries = length items
           \<and> (\<forall>i < length items.
                predict_batch_item chk s (items ! i) = Inr (entries ! i)
                \<and> (\<forall>r. predict_item_attempt chk s (items ! i) = Inr r \<longrightarrow>
                     entries ! i = ServiceSuccess r)
                \<and> (\<forall>e. predict_item_attempt chk s (items ! i) = Inl e \<longrightarrow>
                     (\<exists>p. text_preview (items ! i) = Inr p
                          \<and> entries ! i = ServiceFailure e p)))))"
proof (intro conjI impI)
  assume h: "items \<noteq> [] \<and> length items \<le> 50"
  let ?rs = "batch_loop chk s 0 items"
  have r: "api_batch_predict chk (Some s) (batch_request items)
      = BatchResponse ?rs (length items) (length (filter success ?rs))"
    using h by (simp add: api_batch_predict_def batch_body_items)
  have n: "\<And>i. i < length items \<Longrightarrow> ?rs ! i = process_item chk s i (items ! i)"
    by (simp add: nth_batch_loop)
  show "\<exists>results n_ok.
           api_batch_predict chk (Some s) (batch_request items)
             = BatchResponse results (length items) n_ok
           \<and> length results = length items
           \<and> (\<forall>i < length items.
                index (results ! i) = i
                \<and> results ! i = process_item chk s i (items ! i)
                \<and> (\<not> is_valid (validate_prediction_input chk (items ! i)) \<longrightarrow>
                     results ! i
                       = failure_entry i (error (validate_prediction_input chk (items ! i))))
                \<and> (\<forall>t ty e.
                     is_valid (validate_prediction_input chk (items ! i))
                     \<and> py_getitem (items ! i) ''text'' = Inr (JStr t)
                     \<and> py_getitem (items ! i) ''type'' = Inr (JStr ty)
                     \<and> predict chk s t ty = Inl e \<longrightarrow>
                     results ! i = failure_entry i (Some ''Processing error'')))"
    apply (rule exI [of _ ?rs], rule exI [of _ "length (filter success ?rs)"])
    using r n
    by (auto simp: length_batch_loop index_process_item
        dest: process_item_invalid process_item_raises)
next
  assume h: "\<forall>item \<in> set items.
      text_member_ok item \<or> \<not> isl (predict_item_attempt chk s item)"
  let ?es = "map (\<lambda>item. projr (predict_batch_item chk s item)) items"
  have ok: "\<And>item. item \<in> set items \<Longrightarrow> \<not> isl (predict_batch_item chk s item)"
    using h predict_batch_item_returns by blast
  then have b: "predict_batch chk s items = Inr ?es"
    by (simp add: predict_batch_map)
  have e: "predict_batch_item chk s (items ! i) = Inr (?es ! i)" if "i < length items" for i
    using ok [of "items ! i"] that by (cases "predict_batch_item chk s (items ! i)") simp_all
  have s: "?es ! i = ServiceSuccess r"
    if "i < length items" "predict_item_attempt chk s (items ! i) = Inr r" for i r
    using e [OF that(1)] predict_batch_item_success [OF that(2)] by simp
  have f: "\<exists>p. text_preview (items ! i) = Inr p \<and> ?es ! i = ServiceFailure e' p"
    if "i < length items" "predict_item_attempt chk s (items ! i) = Inl e'" for i e'
  proof -
    from that h have "text_member_ok (items ! i)" by (metis nth_mem sum.disc(1))
    from predict_batch_item_failure [OF that(2) this] e [OF that(1)] show ?thesis by auto
  qed
  show "\<exists>entries.
           predict_batch chk s items = Inr entries
           \<and> length entries = length items
           \<and> (\<forall>i < length items.
                predict_batch_item chk s (items ! i) = Inr (entries ! i)
                \<and> (\<forall>r. predict_item_attempt chk s (items ! i) = Inr r \<longrightarrow>
                     entries ! i = ServiceSuccess r)
                \<and> (\<forall>e. predict_item_attempt chk s (items ! i) = Inl e \<longrightarrow>
                     (\<exists>p. text_preview (items ! i) = Inr p
                          \<and> entries ! i = ServiceFailure e p)))"
    apply (rule exI [of _ ?es])
    using b e s f by simp
qed

theorem batch_results_aligned_witness:
  "\<exists>results n_ok entries.
     api_batch_predict (\<lambda>h. True) (Some (ready_service 0 [0.1, 0.9]))
       (batch_request [JObj [(''text'', JStr ''ok valid text here''), (''type'', JStr ''email'')],
                       JObj [(''text'', JStr ''x''), (''type'', JStr ''bogus'')]])
       = BatchResponse results 2 n_ok
     \<and> length results = 2
     \<and> success (results ! 0) \<and> index (results ! 0) = 0
     \<and> \<not> success (results ! 1) \<and> index (results ! 1) = 1
     \<and> entry_error (results ! 1) = Some ''Type must be one of: email, url''
     \<and> predict_batch (\<lambda>h. True) (ready_service 0 [0.1, 0.9])
          [JObj [(''text'', JStr ''ok valid text here''), (''type'', JStr ''email'')],
           JObj [(''text'', JStr ''x''), (''type'', JStr ''bogus'')]]
       = Inr entries
     \<and> length entries = 2
     \<and> entries ! 0
         = ServiceSuccess \<lparr>prediction = ''Safe'', confidence = 0.9, risk_level = ''Low'',
             content_type = ''email'', raw_prediction = 0,
             processed_text = Some ''ok valid text here''\<rparr>
     \<and> entries ! 1 = ServiceFailure (ValueError ''Invalid content type: bogus'') ''x...''"
proof -
  let ?a = "JObj [(''text'', JStr ''ok valid text here''), (''type'', JStr ''email'')]"
  let ?b = "JObj [(''text'', JStr ''x''), (''type'', JStr ''bogus'')]"
  let ?s = "ready_service 0 [0.1, 0.9]"
  have p1: "\<And>i. process_item (\<lambda>h. True) ?s i ?b
      = failure_entry i (Some ''Type must be one of: email, url'')"
    by (simp add: process_item_def v1 invalid_def)
  have m: "\<forall>item \<in> set [?a, ?b].
      text_member_ok item \<or> \<not> isl (predict_item_attempt (\<lambda>h. True) ?s item)"
    by (simp add: text_member_ok_def)
  have tp: "text_preview ?b = Inr ''x...''"
    by (simp add: text_preview_def)
  note t = batch_results_aligned [where items = "[?a, ?b]" and chk = "\<lambda>h. True" and s = ?s]
  from t [THEN conjunct1]
  obtain results n_ok where
    r: "api_batch_predict (\<lambda>h. True) (Some ?s) (batch_request [?a, ?b])
          = BatchResponse results (length [?a, ?b]) n_ok"
    and l: "length results = length [?a, ?b]"
    and a: "\<forall>i < length [?a, ?b]. index (results ! i) = i
          \<and> results ! i = process_item (\<lambda>h. True) ?s i ([?a, ?b] ! i)"
    by auto
  from a have ra: "results ! 0 = process_item (\<lambda>h. True) ?s 0 ?a"
    and rb: "results ! 1 = process_item (\<lambda>h. True) ?s 1 ?b"
    by auto
  from t [THEN conjunct2, THEN mp, OF m]
  obtain entries where
    b: "predict_batch (\<lambda>h. True) ?s [?a, ?b] = Inr entries"
    and el: "length entries = length [?a, ?b]"
    and ea: "\<forall>i < length [?a, ?b].
          (\<forall>r. predict_item_attempt (\<lambda>h. True) ?s ([?a, ?b] ! i) = Inr r \<longrightarrow>
               entries ! i = ServiceSuccess r)
          \<and> (\<forall>e. predict_item_attempt (\<lambda>h. True) ?s ([?a, ?b] ! i) = Inl e \<longrightarrow>
               (\<exists>p. text_preview ([?a, ?b] ! i) = Inr p \<and> entries ! i = ServiceFailure e p))"
    by auto
  from ea a0 have e0: "entries ! 0
      = ServiceSuccess \<lparr>prediction = ''Safe'', confidence = 0.9, risk_level = ''Low'',
             content_type = ''email'', raw_prediction = 0,
             processed_text = Some ''ok valid text here''\<rparr>"
    by auto
  from ea a1 tp have e1: "entries ! 1
      = ServiceFailure (ValueError ''Invalid content type: bogus'') ''x...''"
    by auto
  show ?thesis
    apply (rule exI [of _ results], rule exI [of _ n_ok], rule exI [of _ entries])
    using r l ra rb b el e0 e1 by (simp add: p0 p1 failure_entry_def)
qed

section \<open>Emails of fewer than two words\<close>

lemma strip_Nil: "strip [] = []"
  by (simp add: strip_def)

text \<open>
  C10 (as the claim states it, refuted): the text \<^verbatim>\<open>hi\<close> splits into fewer than two
  words, and the validator rejects it with the length error, not with the two-words
  error: the length checks come first.
\<close>

theorem two_letter_email_error:
  "length (split_ws (strip ''hi'')) < 2
   \<and> validate_prediction_input (\<lambda>h. True) (JObj [(''text'', JStr ''hi''), (''type'', JStr ''email'')])
       = invalid ''Text content is too short (min 3 characters)''
   \<and> invalid ''Text content is too short (min 3 characters)''
       \<noteq> invalid ''Email content must contain at least 2 words''"
  by (simp add: validator_defs char_defs split_ws.simps)

text \<open>
  C10 (amended): a request of type email whose trimmed text splits into fewer than two
  words is always rejected; the error is ``Email content must contain at least 2 words''
  when the trimmed text has 3 to 10000 characters, and the error of the earlier check
  that fails otherwise (empty, too long, too short).
\<close>

theorem short_email_error:
  assumes "map_of kvs ''text'' = Some (JStr raw)" and "map_of kvs ''type'' = Some (JStr ''email'')"
    and "length (split_ws (strip raw)) < 2"
  shows "validate_prediction_input chk (JObj kvs) =
           invalid (if raw = [] then ''Text content must be a non-empty string''
                    else if strip raw = [] then ''Text content cannot be empty''
                    else if length (strip raw) > 10000
                    then ''Text content is too long (max 10,000 characters)''
                    else if length (strip raw) < 3
                    then ''Text content is too short (min 3 characters)''
                    else ''Email content must contain at least 2 words'')
       \<and> \<not> is_valid (validate_prediction_input chk (JObj kvs))
       \<and> (3 \<le> length (strip raw) \<and> length (strip raw) \<le> 10000 \<longrightarrow>
            validate_prediction_input chk (JObj kvs)
              = invalid ''Email content must contain at least 2 words'')
       \<and> validate_email_content (strip raw)
           = invalid ''Email content must contain at least 2 words''"
proof -
  from assms(1) have ne: "kvs \<noteq> []" by auto
  have "validate_prediction_input chk (JObj kvs) = validate_text_content chk (JStr raw) ''email''"
    using assms(1,2) ne
    by (auto simp: validate_prediction_input_def validate_checked_def truthy_def py_in_def
        py_getitem_def invalid_def valid_def validate_text_content_def
        validate_email_content_def validate_url_content_def Let_def)
  then show ?thesis using assms(3)
    by (auto simp: validate_text_content_def validate_email_content_def invalid_def Let_def
        strip_Nil)
qed

theorem short_email_error_witness:
  "validate_prediction_input (\<lambda>h. True) (JObj [(''text'', JStr ''  unsubscribe  ''), (''type'', JStr ''email'')])
     = invalid ''Email content must contain at least 2 words''"
proof -
  have s: "strip ''  unsubscribe  '' = ''unsubscribe''" by (simp add: char_defs)
  have w: "length (split_ws ''unsubscribe'') < 2" by (simp add: split_ws.simps char_defs)
  show ?thesis
    using short_email_error [where kvs = "[(''text'', JStr ''  unsubscribe  ''), (''type'', JStr ''email'')]"
        and raw = "''  unsubscribe  ''" and chk = "\<lambda>h. True"] w
    by (simp add: s)
qed

section \<open>Preprocessing an email twice\<close>

lemma code_lt_256: "code c < 256"
proof -
  have "of_char c mod 256 = (of_char c :: nat)" by simp
  then show ?thesis unfolding code_def by (metis mod_less_divisor zero_less_numeral)
qed

lemma code_lower_char: "code (lower_char c) = (if is_upper c then code c + 32 else code c)"
  by (auto simp: lower_char_def is_upper_def code_def)

lemma code_inj: "code a = code b \<Longrightarrow> a = b"
  by (simp add: code_def)

lemma not_upper_lower_char: "\<not> is_upper (lower_char c)"
  using code_lower_char [of c] by (auto simp: is_upper_def)

lemma is_space_lower_char: "is_space (lower_char c) = is_space c"
  using code_lower_char [of c] by (auto simp: is_upper_def is_space_def)

lemma lower_char_space: "is_space c \<Longrightarrow> c = CHR '' '' \<Longrightarrow> lower_char c = CHR '' ''"
  by (simp add: lower_char_def is_upper_def code_def)

lemma lower_char_id: "\<not> is_upper c \<Longrightarrow> lower_char c = c"
  by (simp add: lower_char_def)

lemma space_not_digit: "is_space c \<Longrightarrow> \<not> is_digit c"
  by (auto simp: is_space_def is_digit_def)

lemma at_is_punct: "is_punct (CHR ''@'')" and lt_is_punct: "is_punct (CHR ''<'')"
  by (simp_all add: is_punct_def code_def)

declare re_sub.simps [simp del]

lemma re_sub_Nil [simp]: "re_sub m r prev [] = []"
  by (simp add: re_sub.simps)

lemma re_sub_id:
  assumes "\<And>p t. t \<noteq> [] \<Longrightarrow> suffix t s \<Longrightarrow> m p t = None"
  shows "re_sub m r prev s = s"
  using assms
proof (induction s arbitrary: prev)
  case Nil
  then show ?case by simp
next
  case (Cons c cs)
  have "m prev (c # cs) = None" by (rule Cons.prems) auto
  moreover have "re_sub m r (Some c) cs = cs"
    by (rule Cons.IH) (auto intro: Cons.prems suffix_ConsI)
  ultimately show ?case by (simp add: re_sub.simps)
qed

lemma set_re_sub: "set (re_sub m r prev s) \<subseteq> set s \<union> set r"
proof (induction m r prev s rule: re_sub.induct)
  case (1 m repl prev)
  then show ?case by simp
next
  case (2 m repl prev c cs)
  show ?case
  proof (cases "m prev (c # cs)")
    case None
    with 2(1) show ?thesis by (auto simp: re_sub.simps)
  next
    case (Some n)
    show ?thesis
    proof (cases "n = 0")
      case True
      with Some 2(2) show ?thesis by (auto simp: re_sub.simps)
    next
      case False
      from 2(3) [OF Some False] set_drop_subset [of n "c # cs"]
      have "set (re_sub m repl (Some ((c # cs) ! (n - 1))) (drop n (c # cs)))
          \<subseteq> set (c # cs) \<union> set repl" by blast
      with Some False show ?thesis by (auto simp: re_sub.simps)
    qed
  qed
qed

lemma run_len_None: "run_len P prev (c # cs) = None \<longleftrightarrow> \<not> P c"
  by (simp add: run_len_def)

lemma run_len_Some: "run_len P prev s = Some n \<Longrightarrow> n = length (takeWhile P s) \<and> n \<noteq> 0"
  by (auto simp: run_len_def Let_def split: if_splits)

lemma re_sub_run_removed:
  "x \<in> set (re_sub (run_len P) [] prev s) \<Longrightarrow> \<not> P x"
proof (induction "run_len P" "[] :: string" prev s rule: re_sub.induct)
  case (1 prev)
  then show ?case by simp
next
  case (2 prev c cs)
  show ?case
  proof (cases "run_len P prev (c # cs)")
    case None
    with 2 show ?thesis by (auto simp: re_sub.simps run_len_None)
  next
    case (Some n)
    then have "n \<noteq> 0" by (auto dest: run_len_Some)
    with 2 Some show ?thesis by (auto simp: re_sub.simps)
  qed
qed

lemma re_sub_run_replaced:
  "x \<in> set (re_sub (run_len P) [r] prev s) \<Longrightarrow> P x \<Longrightarrow> x = r"
proof (induction "run_len P" "[r]" prev s rule: re_sub.induct)
  case (1 prev)
  then show ?case by simp
next
  case (2 prev c cs)
  show ?case
  proof (cases "run_len P prev (c # cs)")
    case None
    with 2 show ?thesis by (auto simp: re_sub.simps run_len_None)
  next
    case (Some n)
    then have "n \<noteq> 0" by (auto dest: run_len_Some)
    with 2 Some show ?thesis by (auto simp: re_sub.simps)
  qed
qed

lemma set_strip: "set (strip s) \<subseteq> set s"
  unfolding strip_def by (metis set_dropWhileD set_rev subsetI)

lemma strip_ends:
  assumes "strip s \<noteq> []"
  shows "\<not> is_space (hd (strip s))" and "\<not> is_space (last (strip s))"
proof -
  let ?a = "dropWhile is_space s"
  let ?b = "dropWhile is_space (rev ?a)"
  from assms have b: "?b \<noteq> []" by (simp add: strip_def)
  then have a: "?a \<noteq> []" by (cases "?a = []") simp_all
  from b have hb: "\<not> is_space (hd ?b)" by (rule hd_dropWhile)
  from a have ha: "\<not> is_space (hd ?a)" by (rule hd_dropWhile)
  have "last (strip s) = hd ?b" using b by (simp add: strip_def last_rev)
  with hb show "\<not> is_space (last (strip s))" by simp
  have "rev ?a = takeWhile is_space (rev ?a) @ ?b" by simp
  then have "last (rev ?a) = last ?b" using b by (metis last_appendR)
  then have "last ?b = hd ?a" using a by (simp add: last_rev)
  moreover have "hd (strip s) = last ?b" using b by (simp add: strip_def hd_rev)
  ultimately show "\<not> is_space (hd (strip s))" using ha by simp
qed

lemma strip_id:
  assumes "s \<noteq> [] \<Longrightarrow> \<not> is_space (hd s) \<and> \<not> is_space (last s)"
  shows "strip s = s"
proof (cases "s = []")
  case True
  then show ?thesis by (simp add: strip_def)
next
  case False
  with assms have h: "\<not> is_space (hd s)" and l: "\<not> is_space (last s)" by auto
  from h False have "dropWhile is_space s = s" by (simp add: dropWhile_eq_self_iff)
  moreover from l False have "dropWhile is_space (rev s) = rev s"
    by (simp add: dropWhile_eq_self_iff hd_rev)
  ultimately show ?thesis by (simp add: strip_def)
qed

lemma link_len_prev: "link_len p t = link_len None t"
  by (simp add: link_len_def)

lemma has_link_iff: "has_link s \<longleftrightarrow> (\<exists>t. t \<noteq> [] \<and> suffix t s \<and> link_len None t \<noteq> None)"
proof (induction s)
  case Nil
  then show ?case by simp
next
  case (Cons c cs)
  show ?case
  proof
    assume "has_link (c # cs)"
    then consider "link_len None (c # cs) \<noteq> None" | "has_link cs" by auto
    then show "\<exists>t. t \<noteq> [] \<and> suffix t (c # cs) \<and> link_len None t \<noteq> None"
    proof cases
      case 1
      then show ?thesis by (intro exI [of _ "c # cs"]) simp
    next
      case 2
      with Cons.IH obtain t where "t \<noteq> []" "suffix t cs" "link_len None t \<noteq> None" by blast
      then show ?thesis by (intro exI [of _ t]) (simp add: suffix_ConsI)
    qed
  next
    assume "\<exists>t. t \<noteq> [] \<and> suffix t (c # cs) \<and> link_len None t \<noteq> None"
    then obtain t where t: "t \<noteq> []" "suffix t (c # cs)" "link_len None t \<noteq> None" by blast
    from t(2) consider "t = c # cs" | "suffix t cs" by (auto simp: suffix_Cons)
    then show "has_link (c # cs)"
    proof cases
      case 1
      with t(3) show ?thesis by simp
    next
      case 2
      with t Cons.IH show ?thesis by auto
    qed
  qed
qed

lemma no_link_id: "\<not> has_link s \<Longrightarrow> re_sub link_len r prev s = s"
  by (rule re_sub_id) (metis has_link_iff link_len_prev)

lemma email_len_None: "CHR ''@'' \<notin> set t \<Longrightarrow> email_len p t = None"
proof -
  assume a: "CHR ''@'' \<notin> set t"
  have "CHR ''@'' \<notin> set (butlast (tl (takeWhile non_space t)))"
  proof
    assume "CHR ''@'' \<in> set (butlast (tl (takeWhile non_space t)))"
    then have "CHR ''@'' \<in> set (tl (takeWhile non_space t))" by (rule in_set_butlastD)
    then have "CHR ''@'' \<in> set (takeWhile non_space t)"
      by (cases "takeWhile non_space t") simp_all
    then have "CHR ''@'' \<in> set t" by (rule set_takeWhileD [THEN conjunct1])
    with a show False by simp
  qed
  then show ?thesis by (simp add: email_len_def Let_def)
qed

lemma phone_len_None: "t \<noteq> [] \<Longrightarrow> \<not> is_digit (hd t) \<Longrightarrow> phone_len p t = None"
  by (cases t) (auto simp: phone_len_def digits_then_def split: option.splits)

lemma tag_len_None: "t \<noteq> [] \<Longrightarrow> hd t \<noteq> CHR ''<'' \<Longrightarrow> tag_len p t = None"
  by (cases t) (auto simp: tag_len_def Let_def)

lemma run_len_None': "t \<noteq> [] \<Longrightarrow> \<not> P (hd t) \<Longrightarrow> run_len P p t = None"
  by (cases t) (auto simp: run_len_def)

lemma suffix_hd_in: "t \<noteq> [] \<Longrightarrow> suffix t s \<Longrightarrow> hd t \<in> set s"
  by (metis hd_in_set set_mono_suffix subsetD)

lemma collapse_id:
  assumes "\<forall>c\<in>set s. is_space c \<longrightarrow> c = CHR '' ''" and "\<not> contains ''  '' s"
  shows "re_sub (run_len is_space) '' '' prev s = s"
  using assms
proof (induction s arbitrary: prev)
  case Nil
  then show ?case by simp
next
  case (Cons c cs)
  have ih: "\<And>p. re_sub (run_len is_space) '' '' p cs = cs"
    using Cons by auto
  show ?case
  proof (cases "is_space c")
    case False
    then have "run_len is_space prev (c # cs) = None" by (simp add: run_len_None)
    then show ?thesis by (simp add: re_sub.simps ih)
  next
    case True
    with Cons.prems(1) have c: "c = CHR '' ''" by simp
    have "takeWhile is_space cs = []"
    proof (cases cs)
      case Nil
      then show ?thesis by simp
    next
      case (Cons d ds)
      have "\<not> is_space d"
      proof
        assume "is_space d"
        with Cons.prems(1) Cons have "d = CHR '' ''" by simp
        with c Cons Cons.prems(2) show False by simp
      qed
      with Cons show ?thesis by simp
    qed
    with True have "run_len is_space prev (c # cs) = Some 1" by (simp add: run_len_def)
    then show ?thesis using c ih by (simp add: re_sub.simps)
  qed
qed

lemma preprocess_clean_id:
  assumes p: "\<forall>c\<in>set y. plain c"
    and t: "y \<noteq> [] \<Longrightarrow> \<not> is_space (hd y) \<and> \<not> is_space (last y)"
    and d: "\<not> contains ''  '' y" and l: "\<not> has_link y"
  shows "preprocess_email y = y"
proof -
  have at: "CHR ''@'' \<notin> set y" using p at_is_punct by (auto simp: plain_def)
  have lt: "CHR ''<'' \<notin> set y" using p lt_is_punct by (auto simp: plain_def)
  have dg: "\<And>c. c \<in> set y \<Longrightarrow> \<not> is_digit c" using p by (auto simp: plain_def)
  have s1: "re_sub link_len [] None y = y" using l by (rule no_link_id)
  have s2: "re_sub email_len [] None y = y"
    by (rule re_sub_id) (metis at email_len_None set_mono_suffix subsetD)
  have s3: "re_sub phone_len [] None y = y"
    by (rule re_sub_id) (metis dg phone_len_None suffix_hd_in)
  have s4: "re_sub tag_len [] None y = y"
    by (rule re_sub_id) (metis lt tag_len_None suffix_hd_in)
  have s5: "re_sub (run_len is_space) '' '' None y = y"
    using p d by (intro collapse_id) (auto simp: plain_def)
  have s6: "lower y = y"
    using p by (auto simp: lower_def plain_def lower_char_id intro: map_idI)
  have s7: "remove_punctuation y = y"
    using p by (auto simp: remove_punctuation_def plain_def)
  have s8: "re_sub (run_len is_digit) [] None y = y"
    by (rule re_sub_id) (metis dg run_len_None' suffix_hd_in)
  have s9: "strip y = y" using t by (rule strip_id)
  show ?thesis by (simp add: preprocess_email_def s1 s2 s3 s4 s5 s6 s7 s8 s9)
qed

lemma preprocess_plain: "c \<in> set (preprocess_email x) \<Longrightarrow> plain c"
proof (cases "x = []")
  case True
  assume "c \<in> set (preprocess_email x)"
  with True show ?thesis by (simp add: preprocess_email_def)
next
  case False
  define t where "t = re_sub tag_len [] None (re_sub phone_len [] None
      (re_sub email_len [] None (re_sub link_len [] None x)))"
  define u where "u = re_sub (run_len is_space) '' '' None t"
  define v where "v = lower u"
  define w where "w = remove_punctuation v"
  define z where "z = re_sub (run_len is_digit) [] None w"
  assume "c \<in> set (preprocess_email x)"
  with False have "c \<in> set (strip z)"
    by (simp add: preprocess_email_def t_def u_def v_def w_def z_def)
  then have cz: "c \<in> set z" using set_strip by blast
  then have nd: "\<not> is_digit c" unfolding z_def by (rule re_sub_run_removed)
  from cz have cw: "c \<in> set w" using set_re_sub [of "run_len is_digit" "[]" None w]
    by (auto simp: z_def)
  then have np: "\<not> is_punct c" and cv: "c \<in> set v"
    by (auto simp: w_def remove_punctuation_def)
  from cv obtain b where b: "b \<in> set u" "c = lower_char b" by (auto simp: v_def lower_def)
  then have nu: "\<not> is_upper c" by (simp add: not_upper_lower_char)
  have "is_space c \<longrightarrow> c = CHR '' ''"
  proof
    assume "is_space c"
    with b have sb: "is_space b" by (simp add: is_space_lower_char)
    with b(1) have "b = CHR '' ''" unfolding u_def by (rule re_sub_run_replaced)
    with sb b show "c = CHR '' ''" by (simp add: lower_char_space)
  qed
  with nd np nu show ?thesis by (simp add: plain_def)
qed

lemma preprocess_is_strip: "\<exists>z. preprocess_email x = strip z"
proof (cases "x = []")
  case True
  then have "preprocess_email x = strip []" by (simp add: preprocess_email_def strip_def)
  then show ?thesis by blast
next
  case False
  then show ?thesis unfolding preprocess_email_def Let_def by (simp only: if_False) blast
qed

lemma preprocess_trimmed:
  assumes "preprocess_email x \<noteq> []"
  shows "\<not> is_space (hd (preprocess_email x)) \<and> \<not> is_space (last (preprocess_email x))"
proof -
  obtain z where z: "preprocess_email x = strip z" using preprocess_is_strip by blast
  with assms have "strip z \<noteq> []" by simp
  from strip_ends [OF this] z show ?thesis by simp
qed

lemma preprocess_twice_if:
  assumes "\<not> contains ''  '' (preprocess_email x)" and "\<not> has_link (preprocess_email x)"
  shows "preprocess_email (preprocess_email x) = preprocess_email x"
proof (rule preprocess_clean_id)
  show "\<forall>c\<in>set (preprocess_email x). plain c" using preprocess_plain by blast
  show "\<not> is_space (hd (preprocess_email x)) \<and> \<not> is_space (last (preprocess_email x))"
    if "preprocess_email x \<noteq> []" using that by (rule preprocess_trimmed)
qed (use assms in simp_all)

lemma length_re_sub_le:
  assumes "\<And>p t n. m p t = Some n \<Longrightarrow> n \<le> length t \<and> length r \<le> n"
  shows "length (re_sub m r prev s) \<le> length s"
  using assms
proof (induction m r prev s rule: re_sub.induct)
  case (1 m repl prev)
  then show ?case by simp
next
  case (2 m repl prev c cs)
  show ?case
  proof (cases "m prev (c # cs)")
    case None
    with 2(1) [OF None 2(4)] show ?thesis by (simp add: re_sub.simps)
  next
    case (Some n)
    show ?thesis
    proof (cases "n = 0")
      case True
      with Some 2(2) [OF Some True 2(4)] show ?thesis by (simp add: re_sub.simps)
    next
      case False
      from 2(4) [OF Some] have n: "n \<le> length (c # cs)" "length repl \<le> n" by auto
      from 2(3) [OF Some False 2(4)]
      have "length (re_sub m repl (Some ((c # cs) ! (n - 1))) (drop n (c # cs)))
          \<le> length (c # cs) - n" by simp
      with n Some False show ?thesis by (simp add: re_sub.simps)
    qed
  qed
qed

lemma link_at_bound: "link_at k s = Some n \<Longrightarrow> k < n \<and> n \<le> length s"
proof -
  assume a: "link_at k s = Some n"
  let ?run = "takeWhile non_space (drop k s)"
  from a have r: "?run \<noteq> []" and n: "n = k + length ?run"
    by (auto simp: link_at_def Let_def split: if_splits)
  have "length ?run \<le> length (drop k s)" by (rule length_takeWhile_le)
  moreover from r have "drop k s \<noteq> []" by auto
  ultimately show ?thesis using r n by auto
qed

lemma link_len_bound: "link_len p t = Some n \<Longrightarrow> 0 < n \<and> n \<le> length t"
  by (auto simp: link_len_def split: if_splits dest: link_at_bound)

lemma email_len_bound: "email_len p t = Some n \<Longrightarrow> n \<le> length t"
  by (auto simp: email_len_def Let_def length_takeWhile_le split: if_splits)

lemma phone_len_bound: "phone_len p t = Some n \<Longrightarrow> n \<le> length t"
  by (auto simp: phone_len_def split: if_splits option.splits)

lemma tag_len_bound: "tag_len p t = Some n \<Longrightarrow> n \<le> length t"
  by (cases t) (auto simp: tag_len_def Let_def split: if_splits)

lemma run_len_bound: "run_len P p t = Some n \<Longrightarrow> 1 \<le> n \<and> n \<le> length t"
  by (auto simp: run_len_def Let_def length_takeWhile_le Suc_le_eq split: if_splits)

lemma length_strip_le: "length (strip s) \<le> length s"
proof -
  have "length (dropWhile is_space (rev (dropWhile is_space s)))
      \<le> length (rev (dropWhile is_space s))" by (rule length_dropWhile_le)
  also have "\<dots> \<le> length s" by (simp add: length_dropWhile_le)
  finally show ?thesis by (simp add: strip_def)
qed

lemma length_links_le: "length (re_sub link_len [] prev s) \<le> length s"
  by (rule length_re_sub_le) (auto dest: link_len_bound)

lemma length_emails_le: "length (re_sub email_len [] prev s) \<le> length s"
  by (rule length_re_sub_le) (auto dest: email_len_bound)

lemma length_phones_le: "length (re_sub phone_len [] prev s) \<le> length s"
  by (rule length_re_sub_le) (auto dest: phone_len_bound)

lemma length_tags_le: "length (re_sub tag_len [] prev s) \<le> length s"
  by (rule length_re_sub_le) (auto dest: tag_len_bound)

lemma length_collapse_le: "length (re_sub (run_len is_space) '' '' prev s) \<le> length s"
  by (rule length_re_sub_le) (auto dest: run_len_bound)

lemma length_digits_le: "length (re_sub (run_len is_digit) [] prev s) \<le> length s"
  by (rule length_re_sub_le) (auto dest: run_len_bound)

lemma preprocess_email_stages:
  "x \<noteq> [] \<Longrightarrow> preprocess_email x = after_links (re_sub link_len [] None x)"
  by (simp add: preprocess_email_def after_links_def after_collapse_def)

lemma length_after_collapse: "length (after_collapse u) \<le> length u"
proof -
  have "length (after_collapse u)
      \<le> length (re_sub (run_len is_digit) [] None (remove_punctuation (lower u)))"
    unfolding after_collapse_def by (rule length_strip_le)
  also have "\<dots> \<le> length (remove_punctuation (lower u))" by (rule length_digits_le)
  also have "\<dots> \<le> length (lower u)" by (simp add: remove_punctuation_def)
  also have "\<dots> = length u" by (simp add: lower_def)
  finally show ?thesis .
qed

lemma length_after_links: "length (after_links t) \<le> length t"
proof -
  let ?e = "re_sub email_len [] None t"
  let ?p = "re_sub phone_len [] None ?e"
  let ?g = "re_sub tag_len [] None ?p"
  have "length (after_links t) \<le> length (re_sub (run_len is_space) '' '' None ?g)"
    unfolding after_links_def by (rule length_after_collapse)
  also have "\<dots> \<le> length ?g" by (rule length_collapse_le)
  also have "\<dots> \<le> length ?p" by (rule length_tags_le)
  also have "\<dots> \<le> length ?e" by (rule length_phones_le)
  also have "\<dots> \<le> length t" by (rule length_emails_le)
  finally show ?thesis .
qed

lemma links_shorten: "has_link s \<Longrightarrow> length (re_sub link_len [] prev s) < length s"
proof (induction s arbitrary: prev)
  case Nil
  then show ?case by simp
next
  case (Cons c cs)
  show ?case
  proof (cases "link_len prev (c # cs)")
    case None
    then have "link_len None (c # cs) = None" by (simp add: link_len_prev [of prev])
    with Cons.prems have "has_link cs" by simp
    from Cons.IH [OF this] None show ?thesis by (simp add: re_sub.simps)
  next
    case (Some n)
    then have n: "0 < n" "n \<le> length (c # cs)" by (auto dest: link_len_bound)
    have r: "re_sub link_len [] prev (c # cs)
        = re_sub link_len [] (Some ((c # cs) ! (n - 1))) (drop n (c # cs))"
      using Some n(1) by (simp add: re_sub.simps)
    have "length (re_sub link_len [] (Some ((c # cs) ! (n - 1))) (drop n (c # cs)))
        \<le> length (drop n (c # cs))" by (rule length_links_le)
    also have "\<dots> < length (c # cs)" using n by (simp del: drop_Suc_Cons)
    finally show ?thesis unfolding r .
  qed
qed

lemma collapse_shortens:
  "contains ''  '' s \<Longrightarrow> length (re_sub (run_len is_space) '' '' prev s) < length s"
proof (induction s arbitrary: prev)
  case Nil
  then show ?case by simp
next
  case (Cons c cs)
  have sp: "is_space (CHR '' '')" by (simp add: is_space_def code_def)
  show ?case
  proof (cases "run_len is_space prev (c # cs)")
    case None
    then have "\<not> is_space c" by (simp add: run_len_None)
    with sp have "c \<noteq> CHR '' ''" by auto
    with Cons.prems have "contains ''  '' cs" by simp
    from Cons.IH [OF this] None show ?thesis by (simp add: re_sub.simps)
  next
    case (Some n)
    then have n: "n = length (takeWhile is_space (c # cs))" "n \<noteq> 0"
      by (auto dest: run_len_Some)
    have le: "n \<le> length (c # cs)" unfolding n(1) by (rule length_takeWhile_le)
    have r: "re_sub (run_len is_space) '' '' prev (c # cs)
        = '' '' @ re_sub (run_len is_space) '' '' (Some ((c # cs) ! (n - 1))) (drop n (c # cs))"
      using Some n(2) by (simp add: re_sub.simps)
    show ?thesis
    proof (cases "n = 1")
      case True
      with n(1) have one: "length (takeWhile is_space (c # cs)) = 1" by simp
      have c: "is_space c"
      proof (rule ccontr)
        assume "\<not> is_space c"
        then have "takeWhile is_space (c # cs) = []" by simp
        with one show False by simp
      qed
      then have "takeWhile is_space (c # cs) = c # takeWhile is_space cs" by simp
      with one have t: "takeWhile is_space cs = []" by simp
      have np: "\<not> prefix ''  '' (c # cs)"
      proof
        assume "prefix ''  '' (c # cs)"
        then obtain ds where "cs = CHR '' '' # ds" by (cases cs) auto
        with t sp show False by simp
      qed
      from Cons.prems np have "contains ''  '' cs" unfolding contains.simps by blast
      from Cons.IH [OF this] have
        "length (re_sub (run_len is_space) '' '' (Some ((c # cs) ! (n - 1))) cs) < length cs" .
      with r True show ?thesis by simp
    next
      case False
      with n(2) have "2 \<le> n" by simp
      moreover have
        "length (re_sub (run_len is_space) '' '' (Some ((c # cs) ! (n - 1))) (drop n (c # cs)))
          \<le> length (drop n (c # cs))" by (rule length_collapse_le)
      ultimately show ?thesis using r le by simp
    qed
  qed
qed

lemma preprocess_changes_links:
  assumes "has_link y"
  shows "preprocess_email y \<noteq> y"
proof -
  from assms have ne: "y \<noteq> []" by auto
  have "length (preprocess_email y) \<le> length (re_sub link_len [] None y)"
    using ne by (simp add: preprocess_email_stages length_after_links)
  also have "\<dots> < length y" using assms by (rule links_shorten)
  finally show ?thesis by auto
qed

lemma preprocess_changes_spaces:
  assumes p: "\<forall>c\<in>set y. plain c" and l: "\<not> has_link y" and d: "contains ''  '' y"
  shows "preprocess_email y \<noteq> y"
proof -
  from d have ne: "y \<noteq> []" by auto
  have at: "CHR ''@'' \<notin> set y" using p at_is_punct by (auto simp: plain_def)
  have lt: "CHR ''<'' \<notin> set y" using p lt_is_punct by (auto simp: plain_def)
  have dg: "\<And>c. c \<in> set y \<Longrightarrow> \<not> is_digit c" using p by (auto simp: plain_def)
  have s1: "re_sub link_len [] None y = y" using l by (rule no_link_id)
  have s2: "re_sub email_len [] None y = y"
    by (rule re_sub_id) (metis at email_len_None set_mono_suffix subsetD)
  have s3: "re_sub phone_len [] None y = y"
    by (rule re_sub_id) (metis dg phone_len_None suffix_hd_in)
  have s4: "re_sub tag_len [] None y = y"
    by (rule re_sub_id) (metis lt tag_len_None suffix_hd_in)
  have "preprocess_email y = after_collapse (re_sub (run_len is_space) '' '' None y)"
    using ne by (simp add: preprocess_email_stages after_links_def s1 s2 s3 s4)
  then have "length (preprocess_email y) \<le> length (re_sub (run_len is_space) '' '' None y)"
    by (simp add: length_after_collapse)
  also have "\<dots> < length y" using d by (rule collapse_shortens)
  finally show ?thesis by auto
qed

text \<open>
  C2 (as the claim states it, refuted): the preprocessing is not idempotent. The
  punctuation is removed after the white space is collapsed, so \<^verbatim>\<open>a . b\<close> becomes
  \<^verbatim>\<open>a  b\<close> with two spaces, which a second pass collapses to \<^verbatim>\<open>a b\<close>.
\<close>

theorem preprocess_email_not_idempotent:
  "preprocess_email ''a . b'' = ''a  b''
   \<and> preprocess_email ''a  b'' = ''a b''
   \<and> preprocess_email (preprocess_email ''a . b'') \<noteq> preprocess_email ''a . b''"
proof -
  have a: "preprocess_email ''a . b'' = ''a  b''"
    by (simp add: normalizer_defs char_defs re_sub.simps)
  have b: "preprocess_email ''a  b'' = ''a b''"
    by (simp add: normalizer_defs char_defs re_sub.simps)
  show ?thesis by (simp add: a b)
qed

text \<open>
  C2 (amended): the preprocessing applies its nine steps in the fixed order, and a second
  application changes nothing exactly when the first result holds no two spaces in a row
  and no match of the hyperlink pattern (\<^verbatim>\<open>http\<close> or \<^verbatim>\<open>www\<close> followed by a character
  that is not white space).
\<close>

theorem preprocess_email_twice:
  "preprocess_email (preprocess_email x) = preprocess_email x
     \<longleftrightarrow> \<not> contains ''  '' (preprocess_email x) \<and> \<not> has_link (preprocess_email x)"
proof
  assume e: "preprocess_email (preprocess_email x) = preprocess_email x"
  have "\<not> has_link (preprocess_email x)"
    using e preprocess_changes_links by blast
  moreover have "\<not> contains ''  '' (preprocess_email x)"
    using e calculation preprocess_changes_spaces preprocess_plain by blast
  ultimately show "\<not> contains ''  '' (preprocess_email x) \<and> \<not> has_link (preprocess_email x)"
    by simp
next
  assume "\<not> contains ''  '' (preprocess_email x) \<and> \<not> has_link (preprocess_email x)"
  then show "preprocess_email (preprocess_email x) = preprocess_email x"
    by (simp add: preprocess_twice_if)
qed

theorem preprocess_email_twice_witness:
  "preprocess_email ''Hello, World!'' = ''hello world''
   \<and> preprocess_email (preprocess_email ''Hello, World!'') = preprocess_email ''Hello, World!''"
proof -
  have a: "preprocess_email ''Hello, World!'' = ''hello world''"
    by (simp add: normalizer_defs char_defs re_sub.simps)
  have b: "\<not> contains ''  '' ''hello world''" by simp
  have c: "\<not> has_link ''hello world''" by (simp add: link_len_def link_at_def)
  from preprocess_email_twice [of "''Hello, World!''"] b c
  have "preprocess_email (preprocess_email ''Hello, World!'') = preprocess_email ''Hello, World!''"
    unfolding a by simp
  with a show ?thesis by simp
qed

end
